theory Spec2Isabelle
  imports Complex_Main
begin

section \<open>A shallow embedding of \<^verbatim>\<open>rl_baselines/cma_es.py\<close>\<close>

text \<open>
  The module trains a policy with CMA-ES: a population of flat parameter vectors is asked
  from the search strategy, every candidate is rolled out in its own instance of a
  vectorised environment, and the negated cumulative rewards are told back.

  Conventions of the embedding:
  \<^item> an exception is a value \<open>Inl e\<close> of \<open>error + 'a\<close>; the state at the raise is dropped,
    since nothing in the module catches an exception;
  \<^item> floating-point numbers are \<open>real\<close> (the properties below are about control flow and
    data flow, not about rounding);
  \<^item> a one-dimensional numpy array is a list;
  \<^item> the collaborators that are not part of the module (the network's forward function,
    the \<^verbatim>\<open>cma\<close> strategy object, the vectorised environment, the callback) are
    parameters: records of functions over an abstract state;
  \<^item> the two \<^verbatim>\<open>while\<close> loops of \<^verbatim>\<open>CMAES.train\<close> may run forever, so they are
    \<^theory_text>\<open>partial_function (option)\<close>: \<open>None\<close> is "does not return".
\<close>

subsection \<open>Errors and actions\<close>

datatype error =
  IndexError | ValueError | RuntimeError | ZeroDivisionError | AttributeError
  | FileNotFoundError | External string

text \<open>
  An action of \<^verbatim>\<open>PytorchPolicy.getAction\<close>: the index \<^verbatim>\<open>np.argmax\<close> returns in
  discrete mode, the output array in continuous mode. The rollout submits \<^verbatim>\<open>None\<close> for
  a finished instance, hence \<open>action option\<close> at the environment boundary.
\<close>

datatype action = Discrete nat | Continuous "real list"

subsection \<open>The numpy operations the module uses\<close>

text \<open>\<^verbatim>\<open>done.all()\<close>: true on the empty array.\<close>

definition np_all :: "bool list \<Rightarrow> bool" where
  "np_all ds = list_all (\<lambda>d. d) ds"

text \<open>
  \<^verbatim>\<open>np.bitwise_or(done, new_done)\<close> on one-dimensional boolean arrays, with numpy's
  broadcasting written out: equal lengths combine elementwise, a length-one operand is
  stretched, any other pair of shapes raises \<^verbatim>\<open>ValueError\<close>.
\<close>

definition np_bitwise_or :: "bool list \<Rightarrow> bool list \<Rightarrow> error + bool list" where
  "np_bitwise_or xs ys =
     (if length xs = length ys then Inr (map (\<lambda>(x, y). x \<or> y) (zip xs ys))
      else if length ys = 1 then Inr (map (\<lambda>x. x \<or> hd ys) xs)
      else if length xs = 1 then Inr (map (\<lambda>y. hd xs \<or> y) ys)
      else Inl ValueError)"

text \<open>
  \<^verbatim>\<open>r[~done] += reward[~done]\<close>: a boolean mask must have the length of the array it
  indexes (\<^verbatim>\<open>IndexError\<close> otherwise); the entries where the mask \<^verbatim>\<open>~done\<close> is set
  receive the reward, the others are left as they are.
\<close>

definition np_masked_add :: "real list \<Rightarrow> bool list \<Rightarrow> real list \<Rightarrow> error + real list" where
  "np_masked_add r ds reward =
     (if length ds \<noteq> length r then Inl IndexError
      else if length ds \<noteq> length reward then Inl IndexError
      else Inr (map (\<lambda>(rk, d, w). if \<not> d then rk + w else rk) (zip r (zip ds reward))))"

text \<open>
  \<^verbatim>\<open>np.argmax\<close>: the index of the first occurrence of the maximum; \<^verbatim>\<open>ValueError\<close> on
  an empty array.
\<close>

fun argmax_from :: "nat \<Rightarrow> real \<Rightarrow> nat \<Rightarrow> real list \<Rightarrow> nat" where
  "argmax_from best bv i [] = best"
| "argmax_from best bv i (x # xs) =
     (if bv < x then argmax_from i x (Suc i) xs else argmax_from best bv (Suc i) xs)"

definition np_argmax :: "real list \<Rightarrow> error + nat" where
  "np_argmax xs = (case xs of [] \<Rightarrow> Inl ValueError | x # ys \<Rightarrow> Inr (argmax_from 0 x 1 ys))"

text \<open>\<^verbatim>\<open>F.softmax(x, dim=-1)\<close> on a one-dimensional tensor.\<close>

definition softmax :: "real list \<Rightarrow> real list" where
  "softmax xs = map (\<lambda>x. exp x / sum_list (map exp xs)) xs"

subsection \<open>\<^verbatim>\<open>PytorchPolicy\<close>\<close>

text \<open>
  The wrapped \<^verbatim>\<open>nn.Module\<close>: its parameter tensors in the order of
  \<^verbatim>\<open>model.parameters()\<close>, each flattened (a tensor's shape enters the module only through
  its number of elements), and its forward function, which reads the current parameters.
\<close>

record 'o nn_module =
  forward :: "real list list \<Rightarrow> 'o \<Rightarrow> real list"
  parameters :: "real list list"

record 'o PytorchPolicy =
  model :: "'o nn_module"
  param_len :: nat
  continuous_actions :: bool

text \<open>
  \<^verbatim>\<open>PytorchPolicy.__init__\<close>: \<^verbatim>\<open>param_len\<close> is the sum of the tensors' element counts,
  computed once.
\<close>

definition PytorchPolicy_init :: "'o nn_module \<Rightarrow> bool \<Rightarrow> 'o PytorchPolicy" where
  "PytorchPolicy_init m c =
     \<lparr>model = m, param_len = sum_list (map length (parameters m)), continuous_actions = c\<rparr>"

definition getParamSpace :: "'o PytorchPolicy \<Rightarrow> nat" where
  "getParamSpace pol = param_len pol"

text \<open>
  \<^verbatim>\<open>setParam\<close> hands the vector to \<^verbatim>\<open>torch.nn.utils.vector_to_parameters\<close> and does
  nothing else. That function walks the parameters with a pointer into the vector: for each
  tensor it takes the slice \<^verbatim>\<open>vec[pointer:pointer + num_param]\<close>, views it in the tensor's
  shape (\<^verbatim>\<open>RuntimeError\<close> when the slice has fewer elements than the tensor), stores it,
  and advances the pointer. It never compares the vector's length with the total.
\<close>

fun vector_to_parameters :: "real list \<Rightarrow> nat \<Rightarrow> real list list \<Rightarrow> error + real list list" where
  "vector_to_parameters vec pointer [] = Inr []"
| "vector_to_parameters vec pointer (p # ps) =
     (let num_param = length p;
          slice = take num_param (drop pointer vec)
      in if length slice \<noteq> num_param then Inl RuntimeError
         else (case vector_to_parameters vec (pointer + num_param) ps of
                 Inl e \<Rightarrow> Inl e
               | Inr ps' \<Rightarrow> Inr (slice # ps')))"

definition setParam :: "'o PytorchPolicy \<Rightarrow> real list \<Rightarrow> error + 'o PytorchPolicy" where
  "setParam pol param =
     (case vector_to_parameters param 0 (parameters (model pol)) of
        Inl e \<Rightarrow> Inl e
      | Inr ps \<Rightarrow> Inr (pol\<lparr>model := (model pol)\<lparr>parameters := ps\<rparr>\<rparr>))"

text \<open>\<^verbatim>\<open>PytorchPolicy.getAction\<close>.\<close>

definition getAction :: "'o PytorchPolicy \<Rightarrow> 'o \<Rightarrow> error + action" where
  "getAction pol obs =
     (let out = forward (model pol) (parameters (model pol)) obs
      in if continuous_actions pol then Inr (Continuous out)
         else (case np_argmax (softmax out) of
                 Inl e \<Rightarrow> Inl e
               | Inr i \<Rightarrow> Inr (Discrete i)))"

subsection \<open>The collaborators of \<^verbatim>\<open>CMAES\<close>\<close>

text \<open>
  The \<^verbatim>\<open>cma.CMAEvolutionStrategy\<close> object, over an abstract state \<open>'s\<close> (the search
  distribution together with the random source it samples from): the constructor called
  with the initial mean vector, the step size and the population size; \<^verbatim>\<open>ask\<close>;
  \<^verbatim>\<open>tell\<close>; and \<^verbatim>\<open>result.xbest\<close>, which is \<^verbatim>\<open>None\<close> before the first \<^verbatim>\<open>tell\<close>.
\<close>

record 's strategy =
  es_new :: "real list \<Rightarrow> real \<Rightarrow> int \<Rightarrow> error + 's"
  es_ask :: "'s \<Rightarrow> error + ('s \<times> real list list)"
  es_tell :: "'s \<Rightarrow> real list list \<Rightarrow> real list \<Rightarrow> error + 's"
  es_xbest :: "'s \<Rightarrow> real list option"

text \<open>
  The vectorised environment over an abstract state \<open>'e\<close>: \<^verbatim>\<open>reset()\<close> returns the
  observations, \<^verbatim>\<open>step(actions)\<close> the observations, the rewards and the new done-flags
  (the \<^verbatim>\<open>info\<close> component is never read).
\<close>

record ('e, 'o) vec_env =
  env_reset :: "'e \<Rightarrow> error + ('e \<times> 'o list)"
  env_step :: "'e \<Rightarrow> action option list \<Rightarrow> error + ('e \<times> 'o list \<times> real list \<times> bool list)"

subsection \<open>\<^verbatim>\<open>CMAES\<close>\<close>

text \<open>
  The attribute dictionary of a \<^verbatim>\<open>CMAES\<close> object. The field \<open>cma_continuous_actions\<close>
  is the attribute \<^verbatim>\<open>continuous_actions\<close> (renamed: the policy has one of that name).
\<close>

record ('o, 's) CMAES =
  policy :: "'o PytorchPolicy"
  n_population :: int
  init_mu :: real
  init_sigma :: real
  cma_continuous_actions :: bool
  es :: 's
  best_model :: "real list option"

text \<open>\<^verbatim>\<open>CMAES.__init__\<close>: the mean vector is \<^verbatim>\<open>getParamSpace() * [mu]\<close>.\<close>

definition CMAES_init ::
  "'s strategy \<Rightarrow> int \<Rightarrow> 'o PytorchPolicy \<Rightarrow> real \<Rightarrow> real \<Rightarrow> bool \<Rightarrow> error + ('o, 's) CMAES" where
  "CMAES_init lib n pol mu sigma c =
     (case es_new lib (replicate (getParamSpace pol) mu) sigma n of
        Inl e \<Rightarrow> Inl e
      | Inr s \<Rightarrow>
          Inr \<lparr>policy = pol, n_population = n, init_mu = mu, init_sigma = sigma,
               cma_continuous_actions = c, es = s, best_model = es_xbest lib s\<rparr>)"

text \<open>\<^verbatim>\<open>CMAES.getAction\<close>.\<close>

definition CMAES_getAction :: "('o, 's) CMAES \<Rightarrow> 'o \<Rightarrow> error + action" where
  "CMAES_getAction t obs = getAction (policy t) obs"

subsection \<open>The rollout loop of \<^verbatim>\<open>CMAES.train\<close>\<close>

text \<open>
  The local variables of \<^verbatim>\<open>train\<close> that live across the steps of one generation:
  \<^verbatim>\<open>obs\<close>, \<^verbatim>\<open>r\<close>, \<^verbatim>\<open>done\<close>, \<^verbatim>\<open>step\<close>, \<^verbatim>\<open>actions\<close> (of the last step), with the
  policy object (which \<^verbatim>\<open>setParam\<close> mutates) and the environment's state.
\<close>

record ('e, 'o) locals =
  l_policy :: "'o PytorchPolicy"
  l_env :: 'e
  l_obs :: "'o list"
  l_r :: "real list"
  l_done :: "bool list"
  l_step :: int
  l_actions :: "action option list"

text \<open>
  The callback is \<^verbatim>\<open>None\<close> or a function called with the locals at the end of every step.
  It is modelled as an observer: it may raise, and it does not mutate what it is shown.
\<close>

type_synonym ('e, 'o) callback = "(('e, 'o) locals \<Rightarrow> error option) option"

text \<open>
  The \<^verbatim>\<open>for k in range(self.n_population)\<close> loop that assembles the actions, as a
  recursion over the indices still to visit (\<open>[0..<nat n]\<close>, empty for a negative \<open>n\<close>
  as \<^verbatim>\<open>range(n)\<close> is). Reading \<^verbatim>\<open>done[k]\<close>, \<^verbatim>\<open>obs[k]\<close> or
  \<^verbatim>\<open>population[k]\<close> past the end raises \<^verbatim>\<open>IndexError\<close>.
\<close>

fun actions_loop ::
  "real list list \<Rightarrow> 'o list \<Rightarrow> bool list \<Rightarrow> nat list \<Rightarrow> 'o PytorchPolicy \<Rightarrow> action option list
    \<Rightarrow> error + ('o PytorchPolicy \<times> action option list)" where
  "actions_loop population obs ds [] pol actions = Inr (pol, actions)"
| "actions_loop population obs ds (k # ks) pol actions =
     (if length ds \<le> k then Inl IndexError
      else if \<not> ds ! k then
        (if length obs \<le> k then Inl IndexError
         else if length population \<le> k then Inl IndexError
         else (case setParam pol (population ! k) of
                 Inl e \<Rightarrow> Inl e
               | Inr pol' \<Rightarrow>
                   (case getAction pol' (obs ! k) of
                      Inl e \<Rightarrow> Inl e
                    | Inr a \<Rightarrow> actions_loop population obs ds ks pol' (actions @ [Some a]))))
      else actions_loop population obs ds ks pol (actions @ [None]))"

text \<open>One pass through the body of \<^verbatim>\<open>while (not done.all())\<close>.\<close>

definition rollout_step ::
  "('e, 'o) vec_env \<Rightarrow> ('e, 'o) callback \<Rightarrow> int \<Rightarrow> real list list \<Rightarrow> ('e, 'o) locals
    \<Rightarrow> error + ('e, 'o) locals" where
  "rollout_step env cb n population st =
     (case actions_loop population (l_obs st) (l_done st) [0..<nat n] (l_policy st) [] of
        Inl e \<Rightarrow> Inl e
      | Inr (pol, actions) \<Rightarrow>
          (case env_step env (l_env st) actions of
             Inl e \<Rightarrow> Inl e
           | Inr (e', obs', reward, new_done) \<Rightarrow>
               (case np_bitwise_or (l_done st) new_done of
                  Inl e \<Rightarrow> Inl e
                | Inr ds \<Rightarrow>
                    (case np_masked_add (l_r st) ds reward of
                       Inl e \<Rightarrow> Inl e
                     | Inr r' \<Rightarrow>
                         (let st' = \<lparr>l_policy = pol, l_env = e', l_obs = obs', l_r = r',
                                     l_done = ds, l_step = l_step st + n,
                                     l_actions = actions\<rparr>
                          in case cb of
                               None \<Rightarrow> Inr st'
                             | Some f \<Rightarrow> (case f st' of Some e \<Rightarrow> Inl e | None \<Rightarrow> Inr st'))))))"

partial_function (option) rollout ::
  "('e, 'o) vec_env \<Rightarrow> ('e, 'o) callback \<Rightarrow> int \<Rightarrow> real list list \<Rightarrow> ('e, 'o) locals
    \<Rightarrow> (error + ('e, 'o) locals) option" where
  "rollout env cb n population st =
     (if \<not> np_all (l_done st) then
        (case rollout_step env cb n population st of
           Inl e \<Rightarrow> Some (Inl e)
         | Inr st' \<Rightarrow> rollout env cb n population st')
      else Some (Inr st))"

text \<open>
  The loop unrolled: the state after at most \<open>i\<close> passes through the body (fewer when all
  instances are done earlier). It is what \<open>rollout\<close> returns when it returns, and it names
  the intermediate states of a generation.
\<close>

fun rollout_iter ::
  "('e, 'o) vec_env \<Rightarrow> ('e, 'o) callback \<Rightarrow> int \<Rightarrow> real list list \<Rightarrow> nat \<Rightarrow> ('e, 'o) locals
    \<Rightarrow> error + ('e, 'o) locals" where
  "rollout_iter env cb n population 0 st = Inr st"
| "rollout_iter env cb n population (Suc i) st =
     (if \<not> np_all (l_done st) then
        (case rollout_step env cb n population st of
           Inl e \<Rightarrow> Inl e
         | Inr st' \<Rightarrow> rollout_iter env cb n population i st')
      else Inr st)"

subsection \<open>One generation, and \<^verbatim>\<open>CMAES.train\<close>\<close>

text \<open>
  The state \<^verbatim>\<open>train\<close> works on between generations: the trainer object, the
  environment's state and the step counter.
\<close>

type_synonym ('o, 's, 'e) train_state = "('o, 's) CMAES \<times> 'e \<times> int"

text \<open>
  The body of \<^verbatim>\<open>while (step < num_updates)\<close> up to the rollout: reset, zeroed
  accumulator (\<^verbatim>\<open>np.zeros\<close> raises \<^verbatim>\<open>ValueError\<close> on a negative dimension),
  \<^verbatim>\<open>ask\<close>, cleared done-flags.
\<close>

definition generation_start ::
  "'s strategy \<Rightarrow> ('e, 'o) vec_env \<Rightarrow> ('o, 's, 'e) train_state
    \<Rightarrow> error + ('s \<times> real list list \<times> ('e, 'o) locals)" where
  "generation_start lib env ts =
     (case ts of (t, e, step) \<Rightarrow>
        (case env_reset env e of
           Inl err \<Rightarrow> Inl err
         | Inr (e1, obs) \<Rightarrow>
             (if n_population t < 0 then Inl ValueError
              else (case es_ask lib (es t) of
                      Inl err \<Rightarrow> Inl err
                    | Inr (s1, population) \<Rightarrow>
                        Inr (s1, population,
                             \<lparr>l_policy = policy t, l_env = e1, l_obs = obs,
                              l_r = replicate (nat (n_population t)) 0,
                              l_done = replicate (nat (n_population t)) False,
                              l_step = step, l_actions = []\<rparr>)))))"

text \<open>
  The end of the body: \<^verbatim>\<open>self.es.tell(population, -r)\<close> and
  \<^verbatim>\<open>self.best_model = self.es.result.xbest\<close>.
\<close>

definition generation_end ::
  "'s strategy \<Rightarrow> ('o, 's) CMAES \<Rightarrow> 's \<Rightarrow> real list list \<Rightarrow> ('e, 'o) locals
    \<Rightarrow> error + ('o, 's, 'e) train_state" where
  "generation_end lib t s1 population st =
     (case es_tell lib s1 population (map uminus (l_r st)) of
        Inl err \<Rightarrow> Inl err
      | Inr s2 \<Rightarrow>
          Inr (t\<lparr>policy := l_policy st, es := s2, best_model := es_xbest lib s2\<rparr>,
               l_env st, l_step st))"

definition generation ::
  "'s strategy \<Rightarrow> ('e, 'o) vec_env \<Rightarrow> ('e, 'o) callback \<Rightarrow> ('o, 's, 'e) train_state
    \<Rightarrow> (error + ('o, 's, 'e) train_state) option" where
  "generation lib env cb ts =
     (case generation_start lib env ts of
        Inl err \<Rightarrow> Some (Inl err)
      | Inr (s1, population, st0) \<Rightarrow>
          (case rollout env cb (n_population (fst ts)) population st0 of
             None \<Rightarrow> None
           | Some (Inl err) \<Rightarrow> Some (Inl err)
           | Some (Inr st) \<Rightarrow> Some (generation_end lib (fst ts) s1 population st)))"

partial_function (option) train_loop ::
  "'s strategy \<Rightarrow> ('e, 'o) vec_env \<Rightarrow> ('e, 'o) callback \<Rightarrow> int \<Rightarrow> ('o, 's, 'e) train_state
    \<Rightarrow> (error + ('o, 's, 'e) train_state) option" where
  "train_loop lib env cb num_updates ts =
     (if snd (snd ts) < num_updates then
        (case generation lib env cb ts of
           None \<Rightarrow> None
         | Some (Inl err) \<Rightarrow> Some (Inl err)
         | Some (Inr ts') \<Rightarrow> train_loop lib env cb num_updates ts')
      else Some (Inr ts))"

text \<open>\<^verbatim>\<open>CMAES.train\<close>: \<^verbatim>\<open>step = 0\<close>, then the loop.\<close>

definition train ::
  "'s strategy \<Rightarrow> ('e, 'o) vec_env \<Rightarrow> ('e, 'o) callback \<Rightarrow> int \<Rightarrow> ('o, 's) CMAES \<Rightarrow> 'e
    \<Rightarrow> (error + ('o, 's, 'e) train_state) option" where
  "train lib env cb num_updates t e = train_loop lib env cb num_updates (t, e, 0)"

text \<open>
  The outer loop unrolled in the same way: the state after at most \<open>g\<close> generations.
\<close>

fun train_iter ::
  "'s strategy \<Rightarrow> ('e, 'o) vec_env \<Rightarrow> ('e, 'o) callback \<Rightarrow> int \<Rightarrow> nat \<Rightarrow> ('o, 's, 'e) train_state
    \<Rightarrow> (error + ('o, 's, 'e) train_state) option" where
  "train_iter lib env cb num_updates 0 ts = Some (Inr ts)"
| "train_iter lib env cb num_updates (Suc g) ts =
     (if snd (snd ts) < num_updates then
        (case generation lib env cb ts of
           None \<Rightarrow> None
         | Some (Inl err) \<Rightarrow> Some (Inl err)
         | Some (Inr ts') \<Rightarrow> train_iter lib env cb num_updates g ts')
      else Some (Inr ts))"

text \<open>
  What the module expects of the environment, as far as termination goes: from the state
  \<open>e\<close> with done-flags \<open>ds\<close>, all flags are set after at most \<open>h\<close> steps, whatever actions
  are submitted (a step that raises, or flags that cannot be merged, end the rollout as
  well). An environment finishes when this holds, for some \<open>h\<close>, after every reset.
\<close>

fun episodes_end :: "('e, 'o) vec_env \<Rightarrow> nat \<Rightarrow> 'e \<Rightarrow> bool list \<Rightarrow> bool" where
  "episodes_end env 0 e ds = np_all ds"
| "episodes_end env (Suc h) e ds =
     (np_all ds \<or>
      (\<forall>actions.
         case env_step env e actions of
           Inl err \<Rightarrow> True
         | Inr (e', obs, reward, new_done) \<Rightarrow>
             (case np_bitwise_or ds new_done of
                Inl err \<Rightarrow> True
              | Inr ds' \<Rightarrow> episodes_end env h e' ds')))"

definition env_finishes :: "('e, 'o) vec_env \<Rightarrow> int \<Rightarrow> bool" where
  "env_finishes env n =
     (\<forall>e e1 obs. env_reset env e = Inr (e1, obs) \<longrightarrow>
        (\<exists>h. episodes_end env h e1 (replicate (nat n) False)))"

subsection \<open>\<^verbatim>\<open>CMAES.save\<close> and \<^verbatim>\<open>load\<close>\<close>

text \<open>
  The files are a map from paths to pickled attribute dictionaries; \<^verbatim>\<open>pickle.dump\<close>
  followed by \<^verbatim>\<open>pickle.load\<close> gives the dictionary back.
\<close>

type_synonym ('o, 's) files = "string \<rightharpoonup> ('o, 's) CMAES"

definition save :: "('o, 's) CMAES \<Rightarrow> string \<Rightarrow> ('o, 's) files \<Rightarrow> ('o, 's) files" where
  "save t save_path fs = fs(save_path \<mapsto> t)"

text \<open>
  \<^verbatim>\<open>load\<close> builds a trainer with the constructor (the fifth argument,
  \<^verbatim>\<open>continuous_actions\<close>, at its default \<^verbatim>\<open>False\<close>) and then replaces its whole
  attribute dictionary by the loaded one.
\<close>

definition load :: "'s strategy \<Rightarrow> string \<Rightarrow> ('o, 's) files \<Rightarrow> error + ('o, 's) CMAES" where
  "load lib save_path fs =
     (case fs save_path of
        None \<Rightarrow> Inl FileNotFoundError
      | Some class_dict \<Rightarrow>
          (case CMAES_init lib (n_population class_dict) (policy class_dict)
                  (init_mu class_dict) (init_sigma class_dict) False of
             Inl e \<Rightarrow> Inl e
           | Inr fresh \<Rightarrow> Inr class_dict))"

subsection \<open>\<^verbatim>\<open>customArguments\<close> and \<^verbatim>\<open>main\<close>\<close>

text \<open>
  The values of the namespace that the module reads are integers, floats and booleans.
  A parser is the list of its arguments, each an option string with its default;
  \<^verbatim>\<open>add_argument\<close> refuses an option string the parser already has. The attribute of an
  option is its name without the leading dashes and with \<open>_\<close> for every inner \<open>-\<close>.
\<close>

datatype arg_value = IntArg int | FloatArg real | BoolArg bool

type_synonym parser = "(string \<times> arg_value) list"

type_synonym namespace = "string \<rightharpoonup> arg_value"

definition add_argument :: "parser \<Rightarrow> string \<Rightarrow> arg_value \<Rightarrow> error + parser" where
  "add_argument p opt dflt =
     (if opt \<in> set (map fst p) then Inl (External ''ArgumentError'')
      else Inr (p @ [(opt, dflt)]))"

definition customArguments :: "parser \<Rightarrow> error + parser" where
  "customArguments p =
     (case add_argument p ''--num-population'' (IntArg 20) of
        Inl e \<Rightarrow> Inl e
      | Inr p1 \<Rightarrow>
          (case add_argument p1 ''--mu'' (IntArg 0) of
             Inl e \<Rightarrow> Inl e
           | Inr p2 \<Rightarrow> add_argument p2 ''--sigma'' (FloatArg 0.2)))"

definition dest :: "string \<Rightarrow> string" where
  "dest opt = map (\<lambda>c. if c = CHR ''-'' then CHR ''_'' else c) (dropWhile (\<lambda>c. c = CHR ''-'') opt)"

text \<open>The namespace of a command line that sets nothing: every argument at its default.\<close>

definition parse_defaults :: "parser \<Rightarrow> namespace" where
  "parse_defaults p = map_of (map (\<lambda>(opt, dflt). (dest opt, dflt)) p)"

text \<open>
  Reading an attribute: \<^verbatim>\<open>AttributeError\<close> when the namespace does not have it. Where
  an integer is needed (\<^verbatim>\<open>range\<close>, \<^verbatim>\<open>//\<close>) a float is a \<^verbatim>\<open>TypeError\<close> and a boolean
  counts as 0 or 1; \<^verbatim>\<open>int(x)\<close> truncates a float towards zero.
\<close>

definition attr :: "namespace \<Rightarrow> string \<Rightarrow> error + arg_value" where
  "attr args name = (case args name of None \<Rightarrow> Inl AttributeError | Some v \<Rightarrow> Inr v)"

fun truth :: "arg_value \<Rightarrow> bool" where
  "truth (BoolArg b) = b"
| "truth (IntArg i) = (i \<noteq> 0)"
| "truth (FloatArg x) = (x \<noteq> 0)"

fun as_index :: "arg_value \<Rightarrow> error + int" where
  "as_index (IntArg i) = Inr i"
| "as_index (BoolArg b) = Inr (if b then 1 else 0)"
| "as_index (FloatArg x) = Inl (External ''TypeError'')"

fun as_number :: "arg_value \<Rightarrow> real" where
  "as_number (IntArg i) = of_int i"
| "as_number (BoolArg b) = (if b then 1 else 0)"
| "as_number (FloatArg x) = x"

fun py_int :: "arg_value \<Rightarrow> int" where
  "py_int (IntArg i) = i"
| "py_int (BoolArg b) = (if b then 1 else 0)"
| "py_int (FloatArg x) = (if 0 \<le> x then \<lfloor>x\<rfloor> else \<lceil>x\<rceil>)"

text \<open>
  The part of \<^verbatim>\<open>main\<close> that builds the trainer. The environment and the network come
  from collaborators outside the module and are given.
\<close>

definition main_model ::
  "'s strategy \<Rightarrow> 'o nn_module \<Rightarrow> namespace \<Rightarrow> error + ('o, 's) CMAES" where
  "main_model lib net args =
     (case attr args ''continuous_actions'' of
        Inl e \<Rightarrow> Inl e
      | Inr c \<Rightarrow>
          (let pol = PytorchPolicy_init net (truth c)
           in case attr args ''num_population'' of
                Inl e \<Rightarrow> Inl e
              | Inr n \<Rightarrow>
                  (case as_index n of
                     Inl e \<Rightarrow> Inl e
                   | Inr num_population \<Rightarrow>
                       (case attr args ''mu'' of
                          Inl e \<Rightarrow> Inl e
                        | Inr mu \<Rightarrow>
                            (case attr args ''sigma'' of
                               Inl e \<Rightarrow> Inl e
                             | Inr sigma \<Rightarrow>
                                 CMAES_init lib num_population pol (as_number mu)
                                   (as_number sigma) (truth c))))))"

text \<open>
  The step budget \<^verbatim>\<open>int(args.num_timesteps) // args.num_population*2\<close>: \<^verbatim>\<open>//\<close> and
  \<^verbatim>\<open>*\<close> have the same precedence and associate to the left; \<^verbatim>\<open>//\<close> on integers is
  floor division and raises \<^verbatim>\<open>ZeroDivisionError\<close> on a zero divisor.
\<close>

definition num_updates_of :: "namespace \<Rightarrow> error + int" where
  "num_updates_of args =
     (case attr args ''num_timesteps'' of
        Inl e \<Rightarrow> Inl e
      | Inr t \<Rightarrow>
          (case attr args ''num_population'' of
             Inl e \<Rightarrow> Inl e
           | Inr n \<Rightarrow>
               (case as_index n of
                  Inl e \<Rightarrow> Inl e
                | Inr num_population \<Rightarrow>
                    (if num_population = 0 then Inl ZeroDivisionError
                     else Inr (py_int t div num_population * 2)))))"

definition main ::
  "'s strategy \<Rightarrow> ('e, 'o) vec_env \<Rightarrow> 'e \<Rightarrow> 'o nn_module \<Rightarrow> namespace \<Rightarrow> ('e, 'o) callback
    \<Rightarrow> (error + ('o, 's, 'e) train_state) option" where
  "main lib envs e0 net args cb =
     (case main_model lib net args of
        Inl e \<Rightarrow> Some (Inl e)
      | Inr trainer \<Rightarrow>
          (case num_updates_of args of
             Inl e \<Rightarrow> Some (Inl e)
           | Inr num_updates \<Rightarrow> train lib envs cb num_updates trainer e0))"

subsection \<open>Small instances on which the definitions are run\<close>

text \<open>
  A network with two one-element tensors whose output is the parameters scaled by the
  (scalar) observation, used in continuous mode; a strategy that records what it is told
  and keeps as best the candidate of least fitness; and an environment of two instances,
  the first finishing at the first step and the second at the second, with rewards 1 and -2
  at every step.
\<close>

definition toy_net :: "real nn_module" where
  "toy_net = \<lparr>forward = (\<lambda>ps x. map (\<lambda>w. w * x) (concat ps)), parameters = [[0], [0]]\<rparr>"

definition toy_policy :: "real PytorchPolicy" where
  "toy_policy = PytorchPolicy_init toy_net True"

record toy_es =
  toy_mean :: "real list"
  toy_popsize :: int
  toy_told :: "real list list"
  toy_best :: "real list option"

definition toy_lib :: "toy_es strategy" where
  "toy_lib = \<lparr>
     es_new = (\<lambda>x0 sigma n. Inr \<lparr>toy_mean = x0, toy_popsize = n, toy_told = [], toy_best = None\<rparr>),
     es_ask = (\<lambda>s. Inr (s, map (\<lambda>k. map (\<lambda>x. x + real k) (toy_mean s)) [0..<nat (toy_popsize s)])),
     es_tell = (\<lambda>s pop fit. if length pop \<noteq> length fit then Inl ValueError
                  else (case np_argmax (map uminus fit) of
                          Inl e \<Rightarrow> Inl e
                        | Inr i \<Rightarrow> Inr (s\<lparr>toy_told := toy_told s @ [fit],
                                         toy_best := Some (pop ! i)\<rparr>))),
     es_xbest = toy_best\<rparr>"

definition toy_env :: "(nat, real) vec_env" where
  "toy_env = \<lparr>
     env_reset = (\<lambda>t. Inr (0, [1, 1])),
     env_step = (\<lambda>t actions. Inr (Suc t, [1, 1], [1, - 2], [True, 1 \<le> t]))\<rparr>"

definition toy_trainer :: "(real, toy_es) CMAES" where
  "toy_trainer = \<lparr>policy = toy_policy, n_population = 2, init_mu = 0, init_sigma = 1,
     cma_continuous_actions = True, es = \<lparr>toy_mean = [0, 0], toy_popsize = 2, toy_told = [], toy_best = None\<rparr>,
     best_model = None\<rparr>"

definition toy_args :: namespace where
  "toy_args = [''continuous_actions'' \<mapsto> BoolArg True, ''num_population'' \<mapsto> IntArg 2,
     ''mu'' \<mapsto> IntArg 0, ''sigma'' \<mapsto> IntArg 1, ''num_timesteps'' \<mapsto> IntArg 7]"

definition tie_policy :: "real PytorchPolicy" where
  "tie_policy = PytorchPolicy_init \<lparr>forward = (\<lambda>ps x. [0, x, x]), parameters = [[0], [0]]\<rparr> False"

definition default_args :: namespace where
  "default_args =
     (parse_defaults [(''--num-population'', IntArg 20), (''--mu'', IntArg 0),
        (''--sigma'', FloatArg 0.2)])(''continuous_actions'' \<mapsto> BoolArg True)"

text \<open>
  The generation of the small trainer: the population asked, the locals at the start of the
  rollout and after each of its two steps, and the trainer after \<^verbatim>\<open>tell\<close>.
\<close>

definition toy_population :: "real list list" where
  "toy_population = [[0, 0], [1, 1]]"

definition toy_st0 :: "(nat, real) locals" where
  "toy_st0 = \<lparr>l_policy = toy_policy, l_env = 0, l_obs = [1, 1], l_r = [0, 0],
     l_done = [False, False], l_step = 0, l_actions = []\<rparr>"

definition toy_st1 :: "(nat, real) locals" where
  "toy_st1 = \<lparr>l_policy = toy_policy\<lparr>model := toy_net\<lparr>parameters := [[1], [1]]\<rparr>\<rparr>,
     l_env = 1, l_obs = [1, 1], l_r = [0, - 2], l_done = [True, False], l_step = 2,
     l_actions = [Some (Continuous [0, 0]), Some (Continuous [1, 1])]\<rparr>"

definition toy_st2 :: "(nat, real) locals" where
  "toy_st2 = \<lparr>l_policy = toy_policy\<lparr>model := toy_net\<lparr>parameters := [[1], [1]]\<rparr>\<rparr>,
     l_env = 2, l_obs = [1, 1], l_r = [0, - 2], l_done = [True, True], l_step = 4,
     l_actions = [None, Some (Continuous [1, 1])]\<rparr>"

definition toy_trained :: "(real, toy_es) CMAES" where
  "toy_trained = toy_trainer\<lparr>policy := toy_policy\<lparr>model := toy_net\<lparr>parameters := [[1], [1]]\<rparr>\<rparr>,
     es := \<lparr>toy_mean = [0, 0], toy_popsize = 2, toy_told = [[0, 2]], toy_best = Some [0, 0]\<rparr>,
     best_model := Some [0, 0]\<rparr>"

text \<open>
  The same strategy with a constructor that refuses a population of fewer than three.
\<close>

definition picky_lib :: "toy_es strategy" where
  "picky_lib = toy_lib\<lparr>es_new := (\<lambda>x0 sigma n. if n < 3 then Inl ValueError
                                     else es_new toy_lib x0 sigma n)\<rparr>"

lemmas toy_defs = toy_lib_def toy_policy_def toy_trainer_def toy_env_def toy_net_def
  PytorchPolicy_init_def getParamSpace_def toy_population_def toy_st0_def toy_st1_def toy_st2_def
  np_argmax_def

lemmas eval_defs = rollout_step_def setParam_def getAction_def np_bitwise_or_def np_masked_add_def
  np_all_def generation_def generation_start_def generation_end_def upt_rec numeral_2_eq_2

section \<open>Properties\<close>

subsection \<open>Action selection\<close>

lemma argmax_from_spec:
  assumes "best < length pre" "\<forall>j<length pre. pre ! j \<le> pre ! best" "\<forall>j<best. pre ! j < pre ! best"
  shows "argmax_from best (pre ! best) (length pre) xs < length (pre @ xs)
       \<and> (\<forall>j<length (pre @ xs). (pre @ xs) ! j \<le> (pre @ xs) ! argmax_from best (pre ! best) (length pre) xs)
       \<and> (\<forall>j<argmax_from best (pre ! best) (length pre) xs. (pre @ xs) ! j < (pre @ xs) ! argmax_from best (pre ! best) (length pre) xs)"
  using assms
proof (induction xs arbitrary: pre best)
  case Nil
  then show ?case by simp
next
  case (Cons x xs)
  show ?case
  proof (cases "pre ! best < x")
    case True
    have a1: "length pre < length (pre @ [x])" by simp
    have a2: "\<forall>j<length (pre @ [x]). (pre @ [x]) ! j \<le> (pre @ [x]) ! length pre"
    proof (intro allI impI)
      fix j assume "j < length (pre @ [x])"
      then consider "j < length pre" | "j = length pre" by force
      then show "(pre @ [x]) ! j \<le> (pre @ [x]) ! length pre"
      proof cases
        case 1
        then have "pre ! j \<le> pre ! best" using Cons.prems(2) by blast
        with True 1 show ?thesis by (simp add: nth_append)
      next
        case 2
        then show ?thesis by simp
      qed
    qed
    have a3: "\<forall>j<length pre. (pre @ [x]) ! j < (pre @ [x]) ! length pre"
    proof (intro allI impI)
      fix j assume j: "j < length pre"
      then have "pre ! j \<le> pre ! best" using Cons.prems(2) by blast
      with True j show "(pre @ [x]) ! j < (pre @ [x]) ! length pre" by (simp add: nth_append)
    qed
    from Cons.IH[OF a1 a2 a3] True show ?thesis by simp
  next
    case False
    have b1: "best < length (pre @ [x])" using Cons.prems(1) by simp
    have eq: "(pre @ [x]) ! best = pre ! best" using Cons.prems(1) by (simp add: nth_append)
    have b2: "\<forall>j<length (pre @ [x]). (pre @ [x]) ! j \<le> (pre @ [x]) ! best"
    proof (intro allI impI)
      fix j assume "j < length (pre @ [x])"
      then consider "j < length pre" | "j = length pre" by force
      then show "(pre @ [x]) ! j \<le> (pre @ [x]) ! best"
      proof cases
        case 1
        then show ?thesis using Cons.prems(2) eq by (simp add: nth_append)
      next
        case 2
        then show ?thesis using False eq by simp
      qed
    qed
    have b3: "\<forall>j<best. (pre @ [x]) ! j < (pre @ [x]) ! best"
      using Cons.prems(1,3) eq by (simp add: nth_append)
    from Cons.IH[OF b1 b2 b3] False eq show ?thesis by simp
  qed
qed

lemma np_argmax_spec:
  assumes "xs \<noteq> []"
  shows "\<exists>i. np_argmax xs = Inr i \<and> i < length xs \<and> (\<forall>j<length xs. xs ! j \<le> xs ! i)
            \<and> (\<forall>j<i. xs ! j < xs ! i)"
proof -
  from assms obtain x ys where xs: "xs = x # ys" by (cases xs) auto
  have "argmax_from 0 ([x] ! 0) (length [x]) ys < length ([x] @ ys)
       \<and> (\<forall>j<length ([x] @ ys). ([x] @ ys) ! j \<le> ([x] @ ys) ! argmax_from 0 ([x] ! 0) (length [x]) ys)
       \<and> (\<forall>j<argmax_from 0 ([x] ! 0) (length [x]) ys. ([x] @ ys) ! j < ([x] @ ys) ! argmax_from 0 ([x] ! 0) (length [x]) ys)"
    by (rule argmax_from_spec) simp_all
  then show ?thesis by (simp add: xs np_argmax_def)
qed

lemma softmax_length: "length (softmax xs) = length xs"
  by (simp add: softmax_def)

text \<open>
  C7. In continuous mode \<^verbatim>\<open>getAction\<close> returns the raw network output. In discrete
  mode, on a non-empty output, it returns an index at which the softmax of the output is
  maximal and before which every entry is strictly smaller (the first maximum: ties go to
  the lowest index); on an empty output \<^verbatim>\<open>np.argmax\<close> raises.
\<close>

theorem getAction_modes:
  "(continuous_actions pol \<longrightarrow>
      getAction pol obs = Inr (Continuous (forward (model pol) (parameters (model pol)) obs)))
   \<and> (\<not> continuous_actions pol \<and> forward (model pol) (parameters (model pol)) obs \<noteq> [] \<longrightarrow>
        (\<exists>i. getAction pol obs = Inr (Discrete i)
           \<and> i < length (forward (model pol) (parameters (model pol)) obs)
           \<and> (\<forall>j<length (forward (model pol) (parameters (model pol)) obs).
                 softmax (forward (model pol) (parameters (model pol)) obs) ! j
                 \<le> softmax (forward (model pol) (parameters (model pol)) obs) ! i)
           \<and> (\<forall>j<i. softmax (forward (model pol) (parameters (model pol)) obs) ! j
                 < softmax (forward (model pol) (parameters (model pol)) obs) ! i)))
   \<and> (\<not> continuous_actions pol \<and> forward (model pol) (parameters (model pol)) obs = [] \<longrightarrow>
        getAction pol obs = Inl ValueError)"
proof (intro conjI impI)
  assume "continuous_actions pol"
  then show "getAction pol obs = Inr (Continuous (forward (model pol) (parameters (model pol)) obs))"
    by (simp add: getAction_def)
next
  let ?out = "forward (model pol) (parameters (model pol)) obs"
  assume a: "\<not> continuous_actions pol \<and> ?out \<noteq> []"
  then have "softmax ?out \<noteq> []" by (simp add: softmax_def)
  from np_argmax_spec[OF this] obtain i where i: "np_argmax (softmax ?out) = Inr i"
    "i < length (softmax ?out)" "\<forall>j<length (softmax ?out). softmax ?out ! j \<le> softmax ?out ! i"
    "\<forall>j<i. softmax ?out ! j < softmax ?out ! i" by blast
  have "getAction pol obs = Inr (Discrete i)" using a i(1) by (simp add: getAction_def)
  with i show "\<exists>i. getAction pol obs = Inr (Discrete i) \<and> i < length ?out
           \<and> (\<forall>j<length ?out. softmax ?out ! j \<le> softmax ?out ! i)
           \<and> (\<forall>j<i. softmax ?out ! j < softmax ?out ! i)"
    by (auto simp: softmax_length)
next
  assume "\<not> continuous_actions pol \<and> forward (model pol) (parameters (model pol)) obs = []"
  then show "getAction pol obs = Inl ValueError"
    by (simp add: getAction_def softmax_def np_argmax_def)
qed

theorem getAction_modes_witness:
  "continuous_actions toy_policy
   \<and> getAction toy_policy 3 = Inr (Continuous [0, 0])
   \<and> \<not> continuous_actions tie_policy
   \<and> getAction tie_policy 3 = Inr (Discrete 1)
   \<and> softmax [0, 3, 3] ! 0 < softmax [0, 3, 3] ! 1
   \<and> softmax [0, 3, 3] ! 2 \<le> softmax [0, 3, 3] ! 1"
proof -
  have c: "continuous_actions toy_policy" by (simp add: toy_defs)
  have d: "\<not> continuous_actions tie_policy
      \<and> forward (model tie_policy) (parameters (model tie_policy)) 3 \<noteq> []"
    by (simp add: tie_policy_def PytorchPolicy_init_def)
  have out: "forward (model tie_policy) (parameters (model tie_policy)) 3 = [0, 3, 3]"
    by (simp add: tie_policy_def PytorchPolicy_init_def)
  from getAction_modes[of toy_policy 3] c
  have a1: "getAction toy_policy 3 = Inr (Continuous [0, 0])" by (simp add: toy_defs)
  from getAction_modes[of tie_policy 3] d obtain i where
    i: "getAction tie_policy 3 = Inr (Discrete i)"
       "i < length (forward (model tie_policy) (parameters (model tie_policy)) 3)"
       "\<forall>j<length (forward (model tie_policy) (parameters (model tie_policy)) 3).
          softmax (forward (model tie_policy) (parameters (model tie_policy)) 3) ! j
          \<le> softmax (forward (model tie_policy) (parameters (model tie_policy)) 3) ! i"
       "\<forall>j<i. softmax (forward (model tie_policy) (parameters (model tie_policy)) 3) ! j
          < softmax (forward (model tie_policy) (parameters (model tie_policy)) 3) ! i"
    by blast
  have less: "softmax [0, 3, 3] ! 0 < softmax [0, 3, 3] ! 1"
    by (simp add: softmax_def divide_strict_right_mono add_pos_pos)
  have eq: "softmax [0, 3, 3] ! 2 = softmax [0, 3, 3] ! 1" by (simp add: softmax_def)
  have "i = 1"
  proof -
    from i(2) out consider "i = 0" | "i = 1" | "i = 2" by force
    then show ?thesis
    proof cases
      case 1
      with i(3) out have "softmax [0, 3, 3] ! 1 \<le> softmax [0, 3, 3] ! 0" by simp
      with less show ?thesis by simp
    next
      case 2
      then show ?thesis .
    next
      case 3
      with i(4) out have "softmax [0, 3, 3] ! 1 < softmax [0, 3, 3] ! 2" by simp
      with eq show ?thesis by simp
    qed
  qed
  with i(1) c d a1 less eq show ?thesis by simp
qed

subsection \<open>Writing a parameter vector into the policy\<close>



lemma vector_to_parameters_shape:
  "map length ps = map length qs \<Longrightarrow>
   vector_to_parameters vec pointer ps = vector_to_parameters vec pointer qs"
proof (induction ps arbitrary: qs pointer)
  case Nil
  then show ?case by simp
next
  case (Cons p ps)
  then obtain q qs' where qs: "qs = q # qs'" "length p = length q" "map length ps = map length qs'"
    by (cases qs) auto
  from Cons.IH[OF qs(3)] qs show ?case by (simp add: Let_def)
qed

lemma vector_to_parameters_shape_out:
  "vector_to_parameters vec pointer ps = Inr ps' \<Longrightarrow> map length ps' = map length ps"
proof (induction ps arbitrary: ps' pointer)
  case Nil
  then show ?case by simp
next
  case (Cons p ps)
  then show ?case by (auto simp: Let_def split: if_splits sum.splits)
qed




subsection \<open>The configuration read by \<^verbatim>\<open>main\<close>\<close>

text \<open>
  C9. Whatever the namespace, when \<^verbatim>\<open>main\<close> reaches the call of \<^verbatim>\<open>train\<close> the step
  budget it passes is \<^verbatim>\<open>(int(num_timesteps) // num_population) * 2\<close>.
\<close>

theorem main_num_updates:
  assumes "args ''num_timesteps'' = Some t" and "args ''num_population'' = Some n"
    and "as_index n = Inr N" and "N \<noteq> 0" and "main_model lib net args = Inr trainer"
  shows "main lib envs e0 net args cb = train lib envs cb (py_int t div N * 2) trainer e0"
  using assms by (simp add: main_def num_updates_of_def attr_def)

theorem main_num_updates_witness:
  "toy_args ''num_timesteps'' = Some (IntArg 7) \<and> toy_args ''num_population'' = Some (IntArg 2)
   \<and> as_index (IntArg 2) = Inr 2 \<and> main_model toy_lib toy_net toy_args = Inr toy_trainer
   \<and> main toy_lib toy_env 0 toy_net toy_args None = train toy_lib toy_env None 6 toy_trainer 0
   \<and> (6 :: int) = 7 div 2 * 2 \<and> (6 :: int) \<noteq> 7 \<and> (6 :: int) \<noteq> 7 div (2 * 2)"
proof -
  have a: "toy_args ''num_timesteps'' = Some (IntArg 7)" by (simp add: toy_args_def)
  have b: "toy_args ''num_population'' = Some (IntArg 2)" by (simp add: toy_args_def)
  have c: "as_index (IntArg 2) = Inr 2" by simp
  have d: "(2 :: int) \<noteq> 0" by simp
  have e: "main_model toy_lib toy_net toy_args = Inr toy_trainer"
    by (simp add: main_model_def attr_def toy_args_def CMAES_init_def toy_defs numeral_2_eq_2)
  from main_num_updates[OF a b c d e, of toy_env 0 None] a b c e show ?thesis by simp
qed

lemma dest_simps:
  "dest ''--num-population'' = ''num_population''" "dest ''--mu'' = ''mu''" "dest ''--sigma'' = ''sigma''"
  by (simp_all add: dest_def)

lemma customArguments_result:
  "customArguments p = Inr p' \<Longrightarrow>
   p' = p @ [(''--num-population'', IntArg 20), (''--mu'', IntArg 0), (''--sigma'', FloatArg 0.2)]"
  by (auto simp: customArguments_def add_argument_def split: if_splits sum.splits)

text \<open>
  C10. On a parser that has no argument of these names yet, \<^verbatim>\<open>customArguments\<close> adds
  \<^verbatim>\<open>num_population\<close> with default 20, \<^verbatim>\<open>mu\<close> with default 0 and \<^verbatim>\<open>sigma\<close> with
  default 0.2; and \<^verbatim>\<open>main\<close>, on a namespace that has these three at their defaults,
  constructs the strategy with a toy_mean vector of zeros, step size 0.2 and population size 20.
\<close>

theorem customArguments_defaults:
  assumes "customArguments p = Inr p'"
    and "\<forall>opt \<in> set (map fst p). dest opt \<notin> {''num_population'', ''mu'', ''sigma''}"
  shows "parse_defaults p' ''num_population'' = Some (IntArg 20)
       \<and> parse_defaults p' ''mu'' = Some (IntArg 0)
       \<and> parse_defaults p' ''sigma'' = Some (FloatArg 0.2)
       \<and> (\<forall>args c. args ''continuous_actions'' = Some c
             \<and> args ''num_population'' = parse_defaults p' ''num_population''
             \<and> args ''mu'' = parse_defaults p' ''mu''
             \<and> args ''sigma'' = parse_defaults p' ''sigma'' \<longrightarrow>
             main_model lib net args =
               (case es_new lib (replicate (sum_list (map length (parameters net))) 0) 0.2 20 of
                  Inl e \<Rightarrow> Inl e
                | Inr s \<Rightarrow>
                    Inr \<lparr>policy = PytorchPolicy_init net (truth c), n_population = 20,
                         init_mu = 0, init_sigma = 0.2, cma_continuous_actions = truth c,
                         es = s, best_model = es_xbest lib s\<rparr>))"
proof -
  have p': "p' = p @ [(''--num-population'', IntArg 20), (''--mu'', IntArg 0), (''--sigma'', FloatArg 0.2)]"
    using assms(1) by (rule customArguments_result)
  have none: "map_of (map (\<lambda>(opt, dflt). (dest opt, dflt)) p) k = None"
    if "k \<in> {''num_population'', ''mu'', ''sigma''}" for k
  proof -
    have "k \<notin> fst ` set (map (\<lambda>(opt, dflt). (dest opt, dflt)) p)"
      using assms(2) that by (auto simp: image_iff split: prod.splits) 
    then show ?thesis by (simp add: map_of_eq_None_iff)
  qed
  have d1: "parse_defaults p' ''num_population'' = Some (IntArg 20)"
    using none[of "''num_population''"] by (simp add: parse_defaults_def p' map_add_def dest_simps)
  have d2: "parse_defaults p' ''mu'' = Some (IntArg 0)"
    using none[of "''mu''"] by (simp add: parse_defaults_def p' map_add_def dest_simps)
  have d3: "parse_defaults p' ''sigma'' = Some (FloatArg 0.2)"
    using none[of "''sigma''"] by (simp add: parse_defaults_def p' map_add_def dest_simps)
  show ?thesis
    by (simp add: d1 d2 d3 main_model_def attr_def CMAES_init_def getParamSpace_def
        PytorchPolicy_init_def split: sum.splits)
qed

theorem customArguments_defaults_witness:
  "customArguments [] = Inr [(''--num-population'', IntArg 20), (''--mu'', IntArg 0), (''--sigma'', FloatArg 0.2)]
   \<and> default_args ''num_population'' = Some (IntArg 20)
   \<and> default_args ''mu'' = Some (IntArg 0)
   \<and> default_args ''sigma'' = Some (FloatArg 0.2)
   \<and> main_model toy_lib toy_net default_args
      = Inr \<lparr>policy = toy_policy, n_population = 20, init_mu = 0, init_sigma = 0.2,
              cma_continuous_actions = True,
              es = \<lparr>toy_mean = [0, 0], toy_popsize = 20, toy_told = [], toy_best = None\<rparr>, best_model = None\<rparr>"
proof -
  let ?p = "[(''--num-population'', IntArg 20), (''--mu'', IntArg 0), (''--sigma'', FloatArg 0.2)]"
  have a: "customArguments [] = Inr ?p" by (simp add: customArguments_def add_argument_def)
  have b: "\<forall>opt \<in> set (map fst ([] :: parser)). dest opt \<notin> {''num_population'', ''mu'', ''sigma''}"
    by simp
  note inst = customArguments_defaults[OF a b, of toy_lib toy_net]
  have c: "default_args ''continuous_actions'' = Some (BoolArg True)
        \<and> default_args ''num_population'' = parse_defaults ?p ''num_population''
        \<and> default_args ''mu'' = parse_defaults ?p ''mu''
        \<and> default_args ''sigma'' = parse_defaults ?p ''sigma''"
    by (simp add: default_args_def)
  with inst have m: "main_model toy_lib toy_net default_args =
     (case es_new toy_lib (replicate (sum_list (map length (parameters toy_net))) 0) 0.2 20 of
                  Inl e \<Rightarrow> Inl e
                | Inr s \<Rightarrow>
                    Inr \<lparr>policy = PytorchPolicy_init toy_net (truth (BoolArg True)), n_population = 20,
                         init_mu = 0, init_sigma = 0.2, cma_continuous_actions = truth (BoolArg True),
                         es = s, best_model = es_xbest toy_lib s\<rparr>)"
    by blast
  from inst c have d: "default_args ''num_population'' = Some (IntArg 20)
     \<and> default_args ''mu'' = Some (IntArg 0) \<and> default_args ''sigma'' = Some (FloatArg 0.2)"
    by simp
  show ?thesis using a d m by (simp add: toy_defs numeral_2_eq_2)
qed

subsection \<open>The rollout loop\<close>

lemma actions_loop_spec:
  "actions_loop population obs ds ks pol actions = Inr (pol', actions') \<Longrightarrow>
   length actions' = length actions + length ks
   \<and> (\<forall>i<length actions. actions' ! i = actions ! i)
   \<and> (\<forall>i<length ks. (actions' ! (length actions + i) = None) = ds ! (ks ! i))"
proof (induction ks arbitrary: pol actions)
  case Nil
  then show ?case by simp
next
  case (Cons k ks)
  from Cons.prems obtain pol1 a where
    step: "actions_loop population obs ds ks pol1 (actions @ [a]) = Inr (pol', actions')"
      and a: "(a = None) = ds ! k"
    by (auto split: if_splits sum.splits)
  from Cons.IH[OF step] have
    len: "length actions' = length (actions @ [a]) + length ks"
    and pre: "\<forall>i<length (actions @ [a]). actions' ! i = (actions @ [a]) ! i"
    and post: "\<forall>i<length ks. (actions' ! (length (actions @ [a]) + i) = None) = ds ! (ks ! i)"
    by blast+
  have c1: "length actions' = length actions + length (k # ks)" using len by simp
  have c2: "\<forall>i<length actions. actions' ! i = actions ! i"
  proof (intro allI impI)
    fix i assume i: "i < length actions"
    then have "actions' ! i = (actions @ [a]) ! i" using pre by simp
    then show "actions' ! i = actions ! i" using i by (simp add: nth_append)
  qed
  have c3: "\<forall>i<length (k # ks). (actions' ! (length actions + i) = None) = ds ! ((k # ks) ! i)"
  proof (intro allI impI)
    fix i assume i: "i < length (k # ks)"
    show "(actions' ! (length actions + i) = None) = ds ! ((k # ks) ! i)"
    proof (cases i)
      case 0
      have "actions' ! length actions = (actions @ [a]) ! length actions" using pre by simp
      then show ?thesis using 0 a by simp
    next
      case (Suc j)
      then have "j < length ks" using i by simp
      with post have "(actions' ! (length (actions @ [a]) + j) = None) = ds ! (ks ! j)" by blast
      then show ?thesis using Suc by simp
    qed
  qed
  from c1 c2 c3 show ?case by blast
qed

lemma actions_loop_range:
  assumes "actions_loop population obs ds [0..<m] pol [] = Inr (pol', actions')"
  shows "length actions' = m \<and> (\<forall>k<m. (actions' ! k = None) = ds ! k)"
  using actions_loop_spec[OF assms] by simp

lemma np_bitwise_or_same_length:
  assumes "np_bitwise_or xs ys = Inr zs" and "length zs = length xs" and "k < length xs"
  shows "xs ! k \<longrightarrow> zs ! k"
proof (cases "length xs = length ys")
  case True
  then show ?thesis using assms by (auto simp: np_bitwise_or_def)
next
  case False
  show ?thesis
  proof (cases "length ys = 1")
    case True
    then show ?thesis using assms False by (auto simp: np_bitwise_or_def)
  next
    case n1: False
    with False assms(1) have "length xs = 1" "zs = map (\<lambda>y. hd xs \<or> y) ys"
      by (auto simp: np_bitwise_or_def split: if_splits)
    with assms(2) False show ?thesis by simp
  qed
qed

lemma np_masked_add_spec:
  assumes "np_masked_add r ds reward = Inr r'"
  shows "length ds = length r \<and> length reward = length r \<and> length r' = length r
       \<and> (\<forall>k<length r. r' ! k = (if ds ! k then r ! k else r ! k + reward ! k))"
  using assms by (auto simp: np_masked_add_def split: if_splits)

lemma rollout_step_spec:
  assumes "rollout_step env cb n population st = Inr st'"
  shows "\<exists>e' obs' reward new_done.
           env_step env (l_env st) (l_actions st') = Inr (e', obs', reward, new_done)
         \<and> np_bitwise_or (l_done st) new_done = Inr (l_done st')
         \<and> np_masked_add (l_r st) (l_done st') reward = Inr (l_r st')
         \<and> l_env st' = e' \<and> l_obs st' = obs'"
    and "l_step st' = l_step st + n"
    and "actions_loop population (l_obs st) (l_done st) [0..<nat n] (l_policy st) []
            = Inr (l_policy st', l_actions st')"
  using assms
  by (auto simp: rollout_step_def Let_def split: sum.splits prod.splits option.splits)

lemma rollout_step_lengths:
  assumes "rollout_step env cb n population st = Inr st'"
  shows "length (l_r st') = length (l_r st)" and "length (l_done st') = length (l_r st)"
proof -
  from rollout_step_spec(1)[OF assms] obtain reward where
    "np_masked_add (l_r st) (l_done st') reward = Inr (l_r st')" by blast
  from np_masked_add_spec[OF this]
  show "length (l_r st') = length (l_r st)" and "length (l_done st') = length (l_r st)" by simp_all
qed

lemma rollout_step_done:
  assumes "rollout_step env cb n population st = Inr st'"
    and "length (l_done st) = length (l_r st)" and "k < length (l_r st)" and "l_done st ! k"
  shows "l_done st' ! k" and "l_r st' ! k = l_r st ! k"
proof -
  from rollout_step_spec(1)[OF assms(1)] obtain reward new_done where
    or: "np_bitwise_or (l_done st) new_done = Inr (l_done st')"
    and add: "np_masked_add (l_r st) (l_done st') reward = Inr (l_r st')" by blast
  have len: "length (l_done st') = length (l_done st)"
    using rollout_step_lengths(2)[OF assms(1)] assms(2) by simp
  from np_bitwise_or_same_length[OF or len] assms(2,3,4) show d: "l_done st' ! k" by simp
  from np_masked_add_spec[OF add] assms(3) d show "l_r st' ! k = l_r st ! k" by simp
qed

lemma rollout_iter_done:
  "rollout_iter env cb n population i st = Inr st' \<Longrightarrow>
   length (l_done st) = length (l_r st) \<Longrightarrow> k < length (l_r st) \<Longrightarrow> l_done st ! k \<Longrightarrow>
   l_done st' ! k \<and> l_r st' ! k = l_r st ! k"
proof (induction i arbitrary: st)
  case 0
  then show ?case by simp
next
  case (Suc i)
  show ?case
  proof (cases "np_all (l_done st)")
    case True
    with Suc.prems show ?thesis by simp
  next
    case False
    with Suc.prems(1) obtain st1 where
      s1: "rollout_step env cb n population st = Inr st1"
      and rest: "rollout_iter env cb n population i st1 = Inr st'"
      by (auto split: sum.splits)
    note l = rollout_step_lengths[OF s1]
    note d = rollout_step_done[OF s1 Suc.prems(2,3,4)]
    from Suc.IH[OF rest] l d Suc.prems(3) show ?thesis by simp
  qed
qed

lemma rollout_iter_lengths:
  "rollout_iter env cb n population i st = Inr st' \<Longrightarrow>
   length (l_done st) = length (l_r st) \<Longrightarrow>
   length (l_done st') = length (l_r st) \<and> length (l_r st') = length (l_r st)"
proof (induction i arbitrary: st)
  case 0
  then show ?case by simp
next
  case (Suc i)
  show ?case
  proof (cases "np_all (l_done st)")
    case True
    with Suc.prems show ?thesis by simp
  next
    case False
    with Suc.prems(1) obtain st1 where
      s1: "rollout_step env cb n population st = Inr st1"
      and rest: "rollout_iter env cb n population i st1 = Inr st'"
      by (auto split: sum.splits)
    note l = rollout_step_lengths[OF s1]
    from Suc.IH[OF rest] l show ?thesis by simp
  qed
qed

lemma rollout_iter_of_rollout:
  assumes "rollout env cb n population st = Some res"
  shows "\<exists>i. rollout_iter env cb n population i st = res
           \<and> (case res of Inl e \<Rightarrow> True | Inr st' \<Rightarrow> np_all (l_done st'))"
proof (rule rollout.raw_induct[where P = "\<lambda>env cb n population st res.
          \<exists>i. rollout_iter env cb n population i st = res
           \<and> (case res of Inl e \<Rightarrow> True | Inr st' \<Rightarrow> np_all (l_done st'))", OF _ assms])
  fix f :: "('a, 'b) vec_env \<Rightarrow> ('a, 'b) callback \<Rightarrow> int \<Rightarrow> real list list \<Rightarrow> ('a, 'b) locals
    \<Rightarrow> (error + ('a, 'b) locals) option"
  fix env cb n population st res
  assume IH: "\<And>env cb n population st res. f env cb n population st = Some res \<Longrightarrow>
          \<exists>i. rollout_iter env cb n population i st = res
           \<and> (case res of Inl e \<Rightarrow> True | Inr st' \<Rightarrow> np_all (l_done st'))"
  assume body: "(if \<not> np_all (l_done st)
      then case rollout_step env cb n population st of Inl e \<Rightarrow> Some (Inl e)
           | Inr st' \<Rightarrow> f env cb n population st'
      else Some (Inr st)) = Some res"
  show "\<exists>i. rollout_iter env cb n population i st = res
           \<and> (case res of Inl e \<Rightarrow> True | Inr st' \<Rightarrow> np_all (l_done st'))"
  proof (cases "np_all (l_done st)")
    case True
    with body have "rollout_iter env cb n population 0 st = res" "res = Inr st" by simp_all
    with True show ?thesis by (intro exI[of _ 0]) simp
  next
    case False
    show ?thesis
    proof (cases "rollout_step env cb n population st")
      case (Inl e)
      with False body have r: "res = Inl e" by simp
      with False Inl have "rollout_iter env cb n population (Suc 0) st = res" by simp
      with r show ?thesis by (intro exI[of _ "Suc 0"]) simp
    next
      case (Inr st1)
      with False body have "f env cb n population st1 = Some res" by simp
      from IH[OF this] obtain i where i: "rollout_iter env cb n population i st1 = res"
        "(case res of Inl e \<Rightarrow> True | Inr st' \<Rightarrow> np_all (l_done st'))" by blast
      with False Inr have "rollout_iter env cb n population (Suc i) st = res" by simp
      with i(2) show ?thesis by blast
    qed
  qed
qed

lemma rollout_of_rollout_iter:
  "rollout_iter env cb n population i st = res \<Longrightarrow>
   (case res of Inl e \<Rightarrow> True | Inr st' \<Rightarrow> np_all (l_done st')) \<Longrightarrow>
   rollout env cb n population st = Some res"
proof (induction i arbitrary: st)
  case 0
  then show ?case by (subst rollout.simps) auto
next
  case (Suc i)
  show ?case
  proof (cases "np_all (l_done st)")
    case True
    with Suc.prems show ?thesis by (subst rollout.simps) auto
  next
    case False
    show ?thesis
    proof (cases "rollout_step env cb n population st")
      case (Inl e)
      with False Suc.prems show ?thesis by (subst rollout.simps) auto
    next
      case (Inr st1)
      with False Suc.prems(1) have "rollout_iter env cb n population i st1 = res" by simp
      from Suc.IH[OF this Suc.prems(2)] False Inr show ?thesis
        by (subst rollout.simps) simp
    qed
  qed
qed

lemma toy_start: "generation_start toy_lib toy_env (toy_trainer, 0, 0)
    = Inr (es toy_trainer, toy_population, toy_st0)"
  by (simp add: toy_defs eval_defs)

lemma toy_step_1: "rollout_step toy_env None 2 toy_population toy_st0 = Inr toy_st1"
  by (simp add: toy_defs eval_defs)

lemma toy_step_2: "rollout_step toy_env None 2 toy_population toy_st1 = Inr toy_st2"
  by (simp add: toy_defs eval_defs)

lemma toy_iter_1: "rollout_iter toy_env None 2 toy_population (Suc 0) toy_st0 = Inr toy_st1"
  using toy_step_1 by (simp add: toy_st0_def np_all_def)

lemma toy_rollout: "rollout toy_env None 2 toy_population toy_st0 = Some (Inr toy_st2)"
proof -
  have "rollout_iter toy_env None 2 toy_population (Suc (Suc 0)) toy_st0 = Inr toy_st2"
    using toy_step_1 toy_step_2 by (simp add: toy_st0_def toy_st1_def np_all_def)
  then show ?thesis by (rule rollout_of_rollout_iter) (simp add: toy_st2_def np_all_def)
qed

lemma generation_start_lengths:
  assumes "generation_start lib env ts = Inr (s1, population, st0)"
  shows "length (l_r st0) = nat (n_population (fst ts))"
    and "length (l_done st0) = nat (n_population (fst ts))"
    and "l_policy st0 = policy (fst ts)" and "l_step st0 = snd (snd ts)"
    and "0 \<le> n_population (fst ts)"
    and "l_r st0 = replicate (nat (n_population (fst ts))) 0"
    and "l_done st0 = replicate (nat (n_population (fst ts))) False"
    and "es_ask lib (es (fst ts)) = Inr (s1, population)"
  using assms
  by (auto simp: generation_start_def split: prod.splits sum.splits if_splits)

text \<open>
  C1. Let \<open>st\<close> be any state the rollout loop of a generation passes through, and \<open>st'\<close>
  the state after one more pass. For every instance \<open>k\<close>: the accumulator of \<open>k\<close> receives
  this step's reward exactly when the done-flag of \<open>k\<close> is still false after the new flags
  are merged in; the action submitted for \<open>k\<close> is \<^verbatim>\<open>None\<close> exactly when \<open>k\<close> was done
  before the step. Once the flag of \<open>k\<close> is set it stays set and the accumulator of \<open>k\<close> keeps
  its value, in every later state of the loop and in the state the loop ends with, and
  every later step submits \<^verbatim>\<open>None\<close> for \<open>k\<close>.
\<close>

theorem rollout_done_frozen:
  assumes start: "generation_start lib env ts = Inr (s1, population, st0)"
    and reach: "rollout_iter env cb (n_population (fst ts)) population i st0 = Inr st"
    and step: "rollout_step env cb (n_population (fst ts)) population st = Inr st'"
    and k: "k < nat (n_population (fst ts))"
  shows "(\<exists>e' obs' reward new_done.
            env_step env (l_env st) (l_actions st') = Inr (e', obs', reward, new_done)
          \<and> np_bitwise_or (l_done st) new_done = Inr (l_done st')
          \<and> l_r st' ! k = (if l_done st' ! k then l_r st ! k else l_r st ! k + reward ! k))
       \<and> ((l_actions st' ! k = None) = l_done st ! k)
       \<and> (l_done st ! k \<longrightarrow> l_done st' ! k \<and> l_r st' ! k = l_r st ! k)
       \<and> (\<forall>j st2. l_done st ! k \<and> rollout_iter env cb (n_population (fst ts)) population j st = Inr st2
             \<longrightarrow> l_done st2 ! k \<and> l_r st2 ! k = l_r st ! k)
       \<and> (\<forall>j st2 st3. l_done st ! k
               \<and> rollout_iter env cb (n_population (fst ts)) population j st = Inr st2
               \<and> rollout_step env cb (n_population (fst ts)) population st2 = Inr st3
             \<longrightarrow> l_actions st3 ! k = None)
       \<and> (\<forall>stf. l_done st ! k \<and> rollout env cb (n_population (fst ts)) population st = Some (Inr stf)
             \<longrightarrow> l_done stf ! k \<and> l_r stf ! k = l_r st ! k)"
proof -
  let ?n = "n_population (fst ts)"
  note l0 = generation_start_lengths(1,2)[OF start]
  have inv0: "length (l_done st0) = length (l_r st0)" using l0 by simp
  from rollout_iter_lengths[OF reach inv0] l0
  have lr: "length (l_r st) = nat ?n" and ld: "length (l_done st) = nat ?n" by simp_all
  have inv: "length (l_done st) = length (l_r st)" using lr ld by simp
  have kr: "k < length (l_r st)" using k lr by simp
  from rollout_step_spec(1)[OF step] obtain e' obs' reward new_done where
    env: "env_step env (l_env st) (l_actions st') = Inr (e', obs', reward, new_done)"
    and or: "np_bitwise_or (l_done st) new_done = Inr (l_done st')"
    and add: "np_masked_add (l_r st) (l_done st') reward = Inr (l_r st')" by blast
  from np_masked_add_spec[OF add] kr
  have r: "l_r st' ! k = (if l_done st' ! k then l_r st ! k else l_r st ! k + reward ! k)"
    by simp
  have c1: "\<exists>e' obs' reward new_done.
            env_step env (l_env st) (l_actions st') = Inr (e', obs', reward, new_done)
          \<and> np_bitwise_or (l_done st) new_done = Inr (l_done st')
          \<and> l_r st' ! k = (if l_done st' ! k then l_r st ! k else l_r st ! k + reward ! k)"
    using env or r by blast
  from actions_loop_range[OF rollout_step_spec(3)[OF step]] k
  have c2: "(l_actions st' ! k = None) = l_done st ! k" by simp
  have c3: "l_done st ! k \<longrightarrow> l_done st' ! k \<and> l_r st' ! k = l_r st ! k"
    using rollout_step_done[OF step inv kr] by simp
  have c4: "\<forall>j st2. l_done st ! k \<and> rollout_iter env cb ?n population j st = Inr st2
             \<longrightarrow> l_done st2 ! k \<and> l_r st2 ! k = l_r st ! k"
  proof (intro allI impI)
    fix j st2
    assume a: "l_done st ! k \<and> rollout_iter env cb ?n population j st = Inr st2"
    then have "rollout_iter env cb ?n population j st = Inr st2" and "l_done st ! k" by simp_all
    from rollout_iter_done[OF this(1) inv kr this(2)]
    show "l_done st2 ! k \<and> l_r st2 ! k = l_r st ! k" .
  qed
  have c5: "\<forall>j st2 st3. l_done st ! k \<and> rollout_iter env cb ?n population j st = Inr st2
               \<and> rollout_step env cb ?n population st2 = Inr st3
             \<longrightarrow> l_actions st3 ! k = None"
  proof (intro allI impI)
    fix j st2 st3
    assume a: "l_done st ! k \<and> rollout_iter env cb ?n population j st = Inr st2
               \<and> rollout_step env cb ?n population st2 = Inr st3"
    then have d2: "l_done st2 ! k" using c4 by blast
    from a have "rollout_step env cb ?n population st2 = Inr st3" by simp
    from actions_loop_range[OF rollout_step_spec(3)[OF this]] k d2
    show "l_actions st3 ! k = None" by simp
  qed
  have c6: "\<forall>stf. l_done st ! k \<and> rollout env cb ?n population st = Some (Inr stf)
             \<longrightarrow> l_done stf ! k \<and> l_r stf ! k = l_r st ! k"
  proof (intro allI impI)
    fix stf
    assume a: "l_done st ! k \<and> rollout env cb ?n population st = Some (Inr stf)"
    then obtain j where "rollout_iter env cb ?n population j st = Inr stf"
      using rollout_iter_of_rollout by blast
    with a c4 show "l_done stf ! k \<and> l_r stf ! k = l_r st ! k" by blast
  qed
  show ?thesis by (intro conjI c1 c2 c3 c4 c5 c6)
qed

theorem rollout_done_frozen_witness:
  "generation_start toy_lib toy_env (toy_trainer, 0, 0) = Inr (es toy_trainer, toy_population, toy_st0)
   \<and> rollout_iter toy_env None 2 toy_population (Suc 0) toy_st0 = Inr toy_st1
   \<and> rollout_step toy_env None 2 toy_population toy_st1 = Inr toy_st2
   \<and> l_done toy_st1 ! 0 \<and> \<not> l_done toy_st1 ! 1 \<and> l_done toy_st2 ! 1
   \<and> l_actions toy_st2 ! 0 = None \<and> l_actions toy_st2 ! 1 \<noteq> None
   \<and> l_r toy_st2 ! 0 = l_r toy_st1 ! 0 \<and> l_r toy_st2 ! 1 = l_r toy_st1 ! 1
   \<and> l_r toy_st1 = [0, - 2]"
proof -
  have n: "n_population (fst (toy_trainer, 0 :: nat, 0 :: int)) = 2" by (simp add: toy_trainer_def)
  have k0: "0 < nat (n_population (fst (toy_trainer, 0 :: nat, 0 :: int)))" using n by simp
  have k1: "1 < nat (n_population (fst (toy_trainer, 0 :: nat, 0 :: int)))" using n by simp
  note t0 = rollout_done_frozen[OF toy_start toy_iter_1[folded n] toy_step_2[folded n] k0]
  note t1 = rollout_done_frozen[OF toy_start toy_iter_1[folded n] toy_step_2[folded n] k1]
  have d: "l_done toy_st1 ! 0" "\<not> l_done toy_st1 ! 1" "l_done toy_st2 ! 1"
    by (simp_all add: toy_st1_def toy_st2_def)
  from t0[THEN conjunct2, THEN conjunct1] d have a0: "l_actions toy_st2 ! 0 = None" by simp
  from t0[THEN conjunct2, THEN conjunct2, THEN conjunct1] d
  have a0': "l_r toy_st2 ! 0 = l_r toy_st1 ! 0" by simp
  from t1[THEN conjunct2, THEN conjunct1] d have a1: "l_actions toy_st2 ! 1 \<noteq> None" by simp
  from t1[THEN conjunct1] obtain reward :: "real list" where
    "l_r toy_st2 ! 1 = (if l_done toy_st2 ! 1 then l_r toy_st1 ! 1 else l_r toy_st1 ! 1 + reward ! 1)"
    by blast
  with d have a2: "l_r toy_st2 ! 1 = l_r toy_st1 ! 1" by simp
  show ?thesis using toy_start toy_iter_1 toy_step_2 d a0 a0' a1 a2 by (simp add: toy_st1_def)
qed

subsection \<open>Scoring a generation\<close>

text \<open>
  C3. When the rollout of a generation ends in the state \<open>st\<close>, \<^verbatim>\<open>tell\<close> is called on the
  strategy state left by this generation's \<^verbatim>\<open>ask\<close>, with the population that \<^verbatim>\<open>ask\<close>
  returned and the elementwise negation of the accumulator \<open>l_r st\<close>; an exception of
  \<^verbatim>\<open>tell\<close> ends the generation, and otherwise the trainer holds the new strategy state
  and \<^verbatim>\<open>best_model\<close> is its \<^verbatim>\<open>result.xbest\<close>.
\<close>

theorem generation_tells_negated_rewards:
  assumes "generation_start lib env ts = Inr (s1, population, st0)"
    and "rollout env cb (n_population (fst ts)) population st0 = Some (Inr st)"
  shows "es_ask lib (es (fst ts)) = Inr (s1, population)
       \<and> (\<forall>e. es_tell lib s1 population (map (\<lambda>x. - x) (l_r st)) = Inl e \<longrightarrow>
              generation lib env cb ts = Some (Inl e))
       \<and> (\<forall>s2. es_tell lib s1 population (map (\<lambda>x. - x) (l_r st)) = Inr s2 \<longrightarrow>
              (\<exists>t' e' c'. generation lib env cb ts = Some (Inr (t', e', c'))
                 \<and> es t' = s2 \<and> best_model t' = es_xbest lib s2))"
  using assms generation_start_lengths(8)[OF assms(1)]
  by (simp add: generation_def generation_end_def)

theorem generation_tells_negated_rewards_witness:
  "generation_start toy_lib toy_env (toy_trainer, 0, 0) = Inr (es toy_trainer, toy_population, toy_st0)
   \<and> rollout toy_env None 2 toy_population toy_st0 = Some (Inr toy_st2)
   \<and> l_r toy_st2 = [0, - 2]
   \<and> generation toy_lib toy_env None (toy_trainer, 0, 0) = Some (Inr (toy_trained, 2, 4))
   \<and> toy_told (es toy_trained) = [[0, 2]]
   \<and> best_model toy_trained = es_xbest toy_lib (es toy_trained)"
proof -
  have n: "n_population (fst (toy_trainer, 0 :: nat, 0 :: int)) = 2" by (simp add: toy_trainer_def)
  note t = generation_tells_negated_rewards[OF toy_start toy_rollout[folded n]]
  have tell: "es_tell toy_lib (es toy_trainer) toy_population (map (\<lambda>x. - x) (l_r toy_st2))
      = Inr (es toy_trained)"
    by (simp add: toy_defs toy_trained_def)
  from t[THEN conjunct2, THEN conjunct2] tell obtain t' e' c' where
    g: "generation toy_lib toy_env None (toy_trainer, 0, 0) = Some (Inr (t', e', c'))"
    and "es t' = es toy_trained" "best_model t' = es_xbest toy_lib (es toy_trained)" by blast
  have "generation toy_lib toy_env None (toy_trainer, 0, 0) = Some (Inr (toy_trained, 2, 4))"
    using toy_start toy_rollout tell
    by (simp add: generation_def generation_end_def toy_trained_def toy_trainer_def toy_st2_def
        toy_lib_def toy_population_def np_argmax_def)
  then show ?thesis using toy_start toy_rollout
    by (simp add: toy_st2_def toy_trained_def toy_trainer_def toy_lib_def)
qed

subsection \<open>Checkpoints\<close>

text \<open>
  C4. \<^verbatim>\<open>load\<close> of what \<^verbatim>\<open>save\<close> wrote runs the constructor on the saved population
  size, policy, initial mean and initial step size (with \<^verbatim>\<open>continuous_actions\<close> at its
  default): when the constructor raises, so does \<^verbatim>\<open>load\<close>, and in particular when the
  strategy's constructor refuses these arguments; when it succeeds, the fresh object's
  attributes are all replaced and \<^verbatim>\<open>load\<close> returns exactly the saved trainer \<open>t\<close>. For a
  trainer with the hyperparameters of a trainer that the constructor built (population
  size, parameter count, initial mean and step size: the constructor's arguments) the
  constructor succeeds again; then \<^verbatim>\<open>load\<close> returns \<open>t\<close>, and a generation run from the
  loaded trainer is the generation run from \<open>t\<close>, on any environment, callback and counter.
  (The comparison is between runs from the same random state, "with a fixed seed": the
  random source is part of the strategy's state \<open>'s\<close>, and the environment is a function of
  its state.)
\<close>

theorem load_save_roundtrip:
  "load lib save_path (save t save_path fs) =
      (case CMAES_init lib (n_population t) (policy t) (init_mu t) (init_sigma t) False of
         Inl e \<Rightarrow> Inl e
       | Inr fresh \<Rightarrow> Inr t)
   \<and> (\<forall>e. es_new lib (replicate (getParamSpace (policy t)) (init_mu t)) (init_sigma t)
              (n_population t) = Inl e \<longrightarrow>
            load lib save_path (save t save_path fs) = Inl e)
   \<and> (\<forall>n pol mu sigma c t0.
          CMAES_init lib n pol mu sigma c = Inr t0
          \<and> n_population t = n_population t0
          \<and> getParamSpace (policy t) = getParamSpace (policy t0)
          \<and> init_mu t = init_mu t0 \<and> init_sigma t = init_sigma t0 \<longrightarrow>
            load lib save_path (save t save_path fs) = Inr t
            \<and> (\<forall>t' env cb e k. load lib save_path (save t save_path fs) = Inr t' \<longrightarrow>
                  generation lib env cb (t', e, k) = generation lib env cb (t, e, k)))"
proof (intro conjI allI impI)
  show run: "load lib save_path (save t save_path fs) =
      (case CMAES_init lib (n_population t) (policy t) (init_mu t) (init_sigma t) False of
         Inl e \<Rightarrow> Inl e
       | Inr fresh \<Rightarrow> Inr t)"
    by (simp add: load_def save_def)
  {
    fix e
    assume "es_new lib (replicate (getParamSpace (policy t)) (init_mu t)) (init_sigma t)
              (n_population t) = Inl e"
    then have "CMAES_init lib (n_population t) (policy t) (init_mu t) (init_sigma t) False = Inl e"
      by (simp add: CMAES_init_def)
    with run show "load lib save_path (save t save_path fs) = Inl e" by simp
  }
  {
    fix n pol mu sigma c t0
    assume a: "CMAES_init lib n pol mu sigma c = Inr t0
          \<and> n_population t = n_population t0
          \<and> getParamSpace (policy t) = getParamSpace (policy t0)
          \<and> init_mu t = init_mu t0 \<and> init_sigma t = init_sigma t0"
    then obtain s where s: "es_new lib (replicate (getParamSpace pol) mu) sigma n = Inr s"
      and t0: "t0 = \<lparr>policy = pol, n_population = n, init_mu = mu, init_sigma = sigma,
               cma_continuous_actions = c, es = s, best_model = es_xbest lib s\<rparr>"
      by (auto simp: CMAES_init_def split: sum.splits)
    have "es_new lib (replicate (getParamSpace (policy t)) (init_mu t)) (init_sigma t)
            (n_population t) = Inr s"
      using a s t0 by simp
    then have "\<exists>fresh. CMAES_init lib (n_population t) (policy t) (init_mu t) (init_sigma t) False
              = Inr fresh"
      by (simp add: CMAES_init_def)
    with run show l: "load lib save_path (save t save_path fs) = Inr t" by auto
    fix t' env cb e k
    assume "load lib save_path (save t save_path fs) = Inr t'"
    with l show "generation lib env cb (t', e, k) = generation lib env cb (t, e, k)" by simp
  }
qed

theorem load_save_roundtrip_witness:
  "CMAES_init toy_lib 2 toy_policy 0 1 True = Inr toy_trainer
   \<and> n_population toy_trained = n_population toy_trainer
   \<and> getParamSpace (policy toy_trained) = getParamSpace (policy toy_trainer)
   \<and> init_mu toy_trained = init_mu toy_trainer \<and> init_sigma toy_trained = init_sigma toy_trainer
   \<and> load toy_lib ''model.pkl'' (save toy_trained ''model.pkl'' Map.empty) = Inr toy_trained
   \<and> es_new picky_lib (replicate (getParamSpace (policy toy_trained)) (init_mu toy_trained))
        (init_sigma toy_trained) (n_population toy_trained) = Inl ValueError
   \<and> load picky_lib ''model.pkl'' (save toy_trained ''model.pkl'' Map.empty) = Inl ValueError"
proof -
  have a: "CMAES_init toy_lib 2 toy_policy 0 1 True = Inr toy_trainer"
    by (simp add: CMAES_init_def toy_defs numeral_2_eq_2)
  have b: "n_population toy_trained = n_population toy_trainer"
    "getParamSpace (policy toy_trained) = getParamSpace (policy toy_trainer)"
    "init_mu toy_trained = init_mu toy_trainer" "init_sigma toy_trained = init_sigma toy_trainer"
    by (simp_all add: toy_trained_def toy_defs)
  note ok = load_save_roundtrip[where lib = toy_lib and t = toy_trained
      and save_path = "''model.pkl''" and fs = Map.empty, THEN conjunct2, THEN conjunct2]
  from ok a b
  have c: "load toy_lib ''model.pkl'' (save toy_trained ''model.pkl'' Map.empty) = Inr toy_trained"
    by blast
  have d: "es_new picky_lib (replicate (getParamSpace (policy toy_trained)) (init_mu toy_trained))
        (init_sigma toy_trained) (n_population toy_trained) = Inl ValueError"
    by (simp add: picky_lib_def toy_trained_def toy_trainer_def)
  note bad = load_save_roundtrip[where lib = picky_lib and t = toy_trained
      and save_path = "''model.pkl''" and fs = Map.empty, THEN conjunct2, THEN conjunct1]
  from bad d
  have e: "load picky_lib ''model.pkl'' (save toy_trained ''model.pkl'' Map.empty) = Inl ValueError"
    by blast
  show ?thesis using a b c d e by simp
qed

subsection \<open>The parameters the policy holds during a rollout\<close>

lemma setParam_cong:
  assumes "setParam pol v = Inr pol1"
  shows "setParam pol1 w = setParam pol w"
proof -
  from assms obtain ps where ps: "vector_to_parameters v 0 (parameters (model pol)) = Inr ps"
    and pol1: "pol1 = pol\<lparr>model := (model pol)\<lparr>parameters := ps\<rparr>\<rparr>"
    by (auto simp: setParam_def split: sum.splits)
  have "map length ps = map length (parameters (model pol))"
    using ps by (rule vector_to_parameters_shape_out)
  then have "vector_to_parameters w 0 ps = vector_to_parameters w 0 (parameters (model pol))"
    by (rule vector_to_parameters_shape)
  then show ?thesis by (simp add: setParam_def pol1 split: sum.splits)
qed

lemma actions_loop_policy:
  "actions_loop population obs ds ks pol actions = Inr (pol', actions') \<Longrightarrow>
   ((\<forall>k \<in> set ks. ds ! k) \<and> pol' = pol)
   \<or> (\<exists>ks1 k ks2. ks = ks1 @ k # ks2 \<and> \<not> ds ! k \<and> (\<forall>j \<in> set ks2. ds ! j)
         \<and> setParam pol (population ! k) = Inr pol')"
proof (induction ks arbitrary: pol actions)
  case Nil
  then show ?case by simp
next
  case (Cons k ks)
  show ?case
  proof (cases "ds ! k")
    case True
    with Cons.prems have "actions_loop population obs ds ks pol (actions @ [None]) = Inr (pol', actions')"
      by (auto split: if_splits)
    from Cons.IH[OF this] show ?thesis
    proof
      assume "(\<forall>k \<in> set ks. ds ! k) \<and> pol' = pol"
      with True show ?thesis by simp
    next
      assume "\<exists>ks1 k' ks2. ks = ks1 @ k' # ks2 \<and> \<not> ds ! k' \<and> (\<forall>j \<in> set ks2. ds ! j)
         \<and> setParam pol (population ! k') = Inr pol'"
      then obtain ks1 k' ks2 where d: "ks = ks1 @ k' # ks2" "\<not> ds ! k'" "\<forall>j \<in> set ks2. ds ! j"
        "setParam pol (population ! k') = Inr pol'" by blast
      then have "k # ks = (k # ks1) @ k' # ks2" by simp
      with d show ?thesis by blast
    qed
  next
    case False
    with Cons.prems obtain pol1 a where
      sp: "setParam pol (population ! k) = Inr pol1"
      and rest: "actions_loop population obs ds ks pol1 (actions @ [Some a]) = Inr (pol', actions')"
      by (auto split: if_splits sum.splits)
    from Cons.IH[OF rest] show ?thesis
    proof
      assume "(\<forall>k \<in> set ks. ds ! k) \<and> pol' = pol1"
      with sp False have "k # ks = [] @ k # ks \<and> \<not> ds ! k \<and> (\<forall>j \<in> set ks. ds ! j)
         \<and> setParam pol (population ! k) = Inr pol'" by simp
      then show ?thesis by blast
    next
      assume "\<exists>ks1 k' ks2. ks = ks1 @ k' # ks2 \<and> \<not> ds ! k' \<and> (\<forall>j \<in> set ks2. ds ! j)
         \<and> setParam pol1 (population ! k') = Inr pol'"
      then obtain ks1 k' ks2 where d: "ks = ks1 @ k' # ks2" "\<not> ds ! k'" "\<forall>j \<in> set ks2. ds ! j"
        "setParam pol1 (population ! k') = Inr pol'" by blast
      from d(4) setParam_cong[OF sp] have "setParam pol (population ! k') = Inr pol'" by simp
      moreover from d(1) have "k # ks = (k # ks1) @ k' # ks2" by simp
      ultimately show ?thesis using d(2,3) by blast
    qed
  qed
qed

lemma upt_split:
  assumes "[0..<m] = ks1 @ k # ks2"
  shows "k < m \<and> (\<forall>j. k < j \<and> j < m \<longrightarrow> j \<in> set ks2)"
proof -
  have "k \<in> set [0..<m]" using assms by simp
  then have km: "k < m" by simp
  have srt: "sorted (ks1 @ k # ks2)" using assms sorted_upt[of 0 m] by simp
  have "\<forall>j. k < j \<and> j < m \<longrightarrow> j \<in> set ks2"
  proof (intro allI impI)
    fix j assume j: "k < j \<and> j < m"
    then have "j \<in> set [0..<m]" by simp
    then have "j \<in> set (ks1 @ k # ks2)" using assms by simp
    then have "j \<in> set ks1 \<or> j = k \<or> j \<in> set ks2" by auto
    moreover have "j \<notin> set ks1"
    proof
      assume "j \<in> set ks1"
      with srt have "j \<le> k" by (simp add: sorted_append)
      with j show False by simp
    qed
    ultimately show "j \<in> set ks2" using j by auto
  qed
  with km show ?thesis by simp
qed

lemma actions_loop_last_not_done:
  assumes "actions_loop population obs ds [0..<m] pol [] = Inr (pol', actions')"
    and "\<not> (\<forall>k<m. ds ! k)"
  shows "\<exists>k<m. \<not> ds ! k \<and> (\<forall>j. k < j \<and> j < m \<longrightarrow> ds ! j)
              \<and> setParam pol (population ! k) = Inr pol'"
proof -
  from actions_loop_policy[OF assms(1)] assms(2)
  obtain ks1 k ks2 where d: "[0..<m] = ks1 @ k # ks2" "\<not> ds ! k" "\<forall>j \<in> set ks2. ds ! j"
    "setParam pol (population ! k) = Inr pol'" by auto
  from upt_split[OF d(1)] d(2,3,4) show ?thesis by blast
qed

lemma actions_loop_policy_cong:
  assumes "actions_loop population obs ds ks pol actions = Inr (pol', actions')"
  shows "setParam pol' w = setParam pol w"
  using actions_loop_policy[OF assms] setParam_cong by blast

lemma rollout_step_policy_cong:
  assumes "rollout_step env cb n population st = Inr st'"
  shows "setParam (l_policy st') w = setParam (l_policy st) w"
  using actions_loop_policy_cong[OF rollout_step_spec(3)[OF assms]] .

lemma rollout_iter_policy_cong:
  "rollout_iter env cb n population i st = Inr st' \<Longrightarrow>
   setParam (l_policy st') w = setParam (l_policy st) w"
proof (induction i arbitrary: st)
  case 0
  then show ?case by simp
next
  case (Suc i)
  show ?case
  proof (cases "np_all (l_done st)")
    case True
    with Suc.prems show ?thesis by simp
  next
    case False
    with Suc.prems obtain st1 where
      s1: "rollout_step env cb n population st = Inr st1"
      and rest: "rollout_iter env cb n population i st1 = Inr st'"
      by (auto split: sum.splits)
    from Suc.IH[OF rest] rollout_step_policy_cong[OF s1] show ?thesis by simp
  qed
qed

lemma rollout_iter_all_done:
  "np_all (l_done st) \<Longrightarrow> rollout_iter env cb n population i st = Inr st"
  by (cases i) simp_all

lemma rollout_last_step:
  "rollout_iter env cb n population i st0 = Inr stf \<Longrightarrow> np_all (l_done stf) \<Longrightarrow>
   \<not> np_all (l_done st0) \<Longrightarrow>
   \<exists>j st. rollout_iter env cb n population j st0 = Inr st \<and> \<not> np_all (l_done st)
        \<and> rollout_step env cb n population st = Inr stf"
proof (induction i arbitrary: st0)
  case 0
  then show ?case by simp
next
  case (Suc i)
  from Suc.prems(1,3) obtain st1 where
    s1: "rollout_step env cb n population st0 = Inr st1"
    and rest: "rollout_iter env cb n population i st1 = Inr stf"
    by (auto split: sum.splits)
  show ?case
  proof (cases "np_all (l_done st1)")
    case True
    with rest have "stf = st1" by (simp add: rollout_iter_all_done)
    with s1 Suc.prems(3) have "rollout_iter env cb n population 0 st0 = Inr st0
        \<and> \<not> np_all (l_done st0) \<and> rollout_step env cb n population st0 = Inr stf" by simp
    then show ?thesis by blast
  next
    case False
    from Suc.IH[OF rest Suc.prems(2) False] obtain j st where
      j: "rollout_iter env cb n population j st1 = Inr st" "\<not> np_all (l_done st)"
      "rollout_step env cb n population st = Inr stf" by blast
    from j(1) s1 Suc.prems(3) have "rollout_iter env cb n population (Suc j) st0 = Inr st" by simp
    with j(2,3) show ?thesis by blast
  qed
qed

subsection \<open>Generations, the step counter and termination\<close>

lemma generation_spec:
  assumes "generation lib env cb ts = Some (Inr ts')"
  shows "\<exists>s1 population st0 stf.
           generation_start lib env ts = Inr (s1, population, st0)
         \<and> rollout env cb (n_population (fst ts)) population st0 = Some (Inr stf)
         \<and> generation_end lib (fst ts) s1 population stf = Inr ts'"
  using assms
  by (auto simp: generation_def split: sum.splits prod.splits option.splits)

lemma generation_end_spec:
  assumes "generation_end lib t s1 population stf = Inr ts'"
  shows "\<exists>s2. es_tell lib s1 population (map uminus (l_r stf)) = Inr s2
            \<and> ts' = (t\<lparr>policy := l_policy stf, es := s2, best_model := es_xbest lib s2\<rparr>,
                     l_env stf, l_step stf)"
  using assms by (auto simp: generation_end_def split: sum.splits)

lemma rollout_iter_counter:
  "rollout_iter env cb n population i st = Inr st' \<Longrightarrow> 0 \<le> n \<Longrightarrow>
   (\<exists>m. l_step st' = l_step st + n * int m)
   \<and> (\<not> np_all (l_done st) \<longrightarrow> 0 < i \<longrightarrow> l_step st + n \<le> l_step st')"
proof (induction i arbitrary: st)
  case 0
  then show ?case by simp
next
  case (Suc i)
  show ?case
  proof (cases "np_all (l_done st)")
    case True
    with Suc.prems show ?thesis by simp
  next
    case False
    with Suc.prems(1) obtain st1 where
      s1: "rollout_step env cb n population st = Inr st1"
      and rest: "rollout_iter env cb n population i st1 = Inr st'"
      by (auto split: sum.splits)
    have c1: "l_step st1 = l_step st + n" using rollout_step_spec(2)[OF s1] .
    from Suc.IH[OF rest Suc.prems(2)] obtain m where m: "l_step st' = l_step st1 + n * int m"
      by blast
    have "l_step st' = l_step st + n * int (Suc m)" using m c1 by (simp add: algebra_simps)
    then have e: "\<exists>m. l_step st' = l_step st + n * int m" by blast
    have "0 \<le> n * int m" using Suc.prems(2) by simp
    then have "l_step st + n \<le> l_step st'" using m c1 by simp
    with e show ?thesis by simp
  qed
qed

lemma rollout_counter:
  assumes "rollout env cb n population st = Some (Inr st')" and "0 \<le> n"
  shows "(\<exists>m. l_step st' = l_step st + n * int m)
       \<and> (\<not> np_all (l_done st) \<longrightarrow> l_step st + n \<le> l_step st')"
proof -
  from rollout_iter_of_rollout[OF assms(1)] obtain i where
    i: "rollout_iter env cb n population i st = Inr st'" and d: "np_all (l_done st')" by auto
  have "\<not> np_all (l_done st) \<longrightarrow> 0 < i"
  proof
    assume n: "\<not> np_all (l_done st)"
    show "0 < i"
    proof (rule ccontr)
      assume "\<not> 0 < i"
      then have "i = 0" by simp
      with i have "st' = st" by simp
      with d n show False by simp
    qed
  qed
  with rollout_iter_counter[OF i assms(2)] show ?thesis by blast
qed

lemma setParam_fields:
  assumes "setParam pol v = Inr pol'"
  shows "param_len pol' = param_len pol" and "continuous_actions pol' = continuous_actions pol"
  using assms by (auto simp: setParam_def split: sum.splits)

lemma actions_loop_param_len:
  assumes "actions_loop population obs ds ks pol actions = Inr (pol', actions')"
  shows "param_len pol' = param_len pol"
  using actions_loop_policy[OF assms] setParam_fields(1) by blast

lemma rollout_iter_param_len:
  "rollout_iter env cb n population i st = Inr st' \<Longrightarrow>
   param_len (l_policy st') = param_len (l_policy st)"
proof (induction i arbitrary: st)
  case 0
  then show ?case by simp
next
  case (Suc i)
  show ?case
  proof (cases "np_all (l_done st)")
    case True
    with Suc.prems show ?thesis by simp
  next
    case False
    with Suc.prems obtain st1 where
      s1: "rollout_step env cb n population st = Inr st1"
      and rest: "rollout_iter env cb n population i st1 = Inr st'"
      by (auto split: sum.splits)
    from Suc.IH[OF rest] actions_loop_param_len[OF rollout_step_spec(3)[OF s1]]
    show ?thesis by simp
  qed
qed

lemma generation_keeps:
  assumes "generation lib env cb ts = Some (Inr ts')"
  shows "n_population (fst ts') = n_population (fst ts)"
    and "init_mu (fst ts') = init_mu (fst ts)" and "init_sigma (fst ts') = init_sigma (fst ts)"
    and "cma_continuous_actions (fst ts') = cma_continuous_actions (fst ts)"
    and "getParamSpace (policy (fst ts')) = getParamSpace (policy (fst ts))"
    and "setParam (policy (fst ts')) w = setParam (policy (fst ts)) w"
    and "0 \<le> n_population (fst ts)"
    and "\<exists>m. snd (snd ts') = snd (snd ts) + n_population (fst ts) * int m"
    and "1 \<le> n_population (fst ts) \<longrightarrow> snd (snd ts) + n_population (fst ts) \<le> snd (snd ts')"
proof -
  from generation_spec[OF assms] obtain s1 population st0 stf where
    start: "generation_start lib env ts = Inr (s1, population, st0)"
    and ro: "rollout env cb (n_population (fst ts)) population st0 = Some (Inr stf)"
    and fin: "generation_end lib (fst ts) s1 population stf = Inr ts'" by blast
  from generation_end_spec[OF fin] obtain s2 where
    ts': "ts' = ((fst ts)\<lparr>policy := l_policy stf, es := s2, best_model := es_xbest lib s2\<rparr>,
                     l_env stf, l_step stf)" by blast
  note g = generation_start_lengths[OF start]
  from rollout_iter_of_rollout[OF ro] obtain i where
    i: "rollout_iter env cb (n_population (fst ts)) population i st0 = Inr stf" by auto
  show "n_population (fst ts') = n_population (fst ts)" by (simp add: ts')
  show "init_mu (fst ts') = init_mu (fst ts)" by (simp add: ts')
  show "init_sigma (fst ts') = init_sigma (fst ts)" by (simp add: ts')
  show "cma_continuous_actions (fst ts') = cma_continuous_actions (fst ts)" by (simp add: ts')
  show "getParamSpace (policy (fst ts')) = getParamSpace (policy (fst ts))"
    using rollout_iter_param_len[OF i] g(3) by (simp add: ts' getParamSpace_def)
  show "setParam (policy (fst ts')) w = setParam (policy (fst ts)) w"
    using rollout_iter_policy_cong[OF i] g(3) by (simp add: ts')
  show n0: "0 \<le> n_population (fst ts)" using g(5) .
  from rollout_counter[OF ro n0] g(4)
  show "\<exists>m. snd (snd ts') = snd (snd ts) + n_population (fst ts) * int m" by (simp add: ts')
  show "1 \<le> n_population (fst ts) \<longrightarrow> snd (snd ts) + n_population (fst ts) \<le> snd (snd ts')"
  proof
    assume "1 \<le> n_population (fst ts)"
    then have "\<not> np_all (l_done st0)" using g(7) by (cases "nat (n_population (fst ts))") (simp_all add: np_all_def)
    with rollout_counter[OF ro n0] g(4) show "snd (snd ts) + n_population (fst ts) \<le> snd (snd ts')"
      by (simp add: ts')
  qed
qed

lemma rollout_terminates:
  "episodes_end env h (l_env st) (l_done st) \<Longrightarrow> \<exists>res. rollout env cb n population st = Some res"
proof (induction h arbitrary: st)
  case 0
  then show ?case by (subst rollout.simps) simp
next
  case (Suc h)
  show ?case
  proof (cases "np_all (l_done st)")
    case True
    then show ?thesis by (subst rollout.simps) simp
  next
    case False
    show ?thesis
    proof (cases "rollout_step env cb n population st")
      case (Inl e)
      with False show ?thesis by (subst rollout.simps) simp
    next
      case (Inr st1)
      from rollout_step_spec(1)[OF Inr] obtain e' obs' reward new_done where
        env: "env_step env (l_env st) (l_actions st1) = Inr (e', obs', reward, new_done)"
        and or: "np_bitwise_or (l_done st) new_done = Inr (l_done st1)"
        and e': "l_env st1 = e'" by blast
      from Suc.prems False have "\<forall>actions.
         case env_step env (l_env st) actions of
           Inl err \<Rightarrow> True
         | Inr (e', obs, reward, new_done) \<Rightarrow>
             (case np_bitwise_or (l_done st) new_done of
                Inl err \<Rightarrow> True
              | Inr ds' \<Rightarrow> episodes_end env h e' ds')" by simp
      then have "case env_step env (l_env st) (l_actions st1) of
           Inl err \<Rightarrow> True
         | Inr (e', obs, reward, new_done) \<Rightarrow>
             (case np_bitwise_or (l_done st) new_done of
                Inl err \<Rightarrow> True
              | Inr ds' \<Rightarrow> episodes_end env h e' ds')" by (rule spec)
      with env or e' have "episodes_end env h (l_env st1) (l_done st1)" by simp
      from Suc.IH[OF this] obtain res where "rollout env cb n population st1 = Some res" by blast
      with False Inr show ?thesis by (subst rollout.simps) simp
    qed
  qed
qed

lemma generation_terminates:
  assumes "env_finishes env (n_population (fst ts))"
  shows "\<exists>res. generation lib env cb ts = Some res"
proof (cases "generation_start lib env ts")
  case (Inl err)
  then show ?thesis by (simp add: generation_def)
next
  case (Inr x)
  then obtain s1 population st0 where x: "generation_start lib env ts = Inr (s1, population, st0)"
    by (cases x) auto
  then obtain e where "env_reset env e = Inr (l_env st0, l_obs st0)"
    by (auto simp: generation_start_def split: prod.splits sum.splits if_splits)
  with assms obtain h where "episodes_end env h (l_env st0) (replicate (nat (n_population (fst ts))) False)"
    unfolding env_finishes_def by blast
  then have "episodes_end env h (l_env st0) (l_done st0)"
    using generation_start_lengths(7)[OF x] by simp
  from rollout_terminates[OF this] obtain res where
    "rollout env cb (n_population (fst ts)) population st0 = Some res" by blast
  with x show ?thesis by (cases res) (simp_all add: generation_def)
qed

lemma train_loop_terminates:
  "1 \<le> n_population (fst ts) \<Longrightarrow> env_finishes env (n_population (fst ts)) \<Longrightarrow>
   \<exists>res. train_loop lib env cb num_updates ts = Some res"
proof (induction "nat (num_updates - snd (snd ts))" arbitrary: ts rule: less_induct)
  case less
  show ?case
  proof (cases "snd (snd ts) < num_updates")
    case False
    then show ?thesis by (subst train_loop.simps) simp
  next
    case True
    from generation_terminates[OF less.prems(2)] obtain r where
      r: "generation lib env cb ts = Some r" by blast
    show ?thesis
    proof (cases r)
      case (Inl err)
      with r True show ?thesis by (subst train_loop.simps) simp
    next
      case (Inr ts')
      with r have g: "generation lib env cb ts = Some (Inr ts')" by simp
      note k = generation_keeps[OF g]
      from k(9) less.prems(1) have "snd (snd ts) < snd (snd ts')" by simp
      with True have m: "nat (num_updates - snd (snd ts')) < nat (num_updates - snd (snd ts))"
        by simp
      from less.hyps[OF m] less.prems k(1) obtain res where
        "train_loop lib env cb num_updates ts' = Some res" by auto
      with g True show ?thesis by (subst train_loop.simps) simp
    qed
  qed
qed

lemma train_iter_of_train_loop:
  assumes "train_loop lib env cb num_updates ts = Some res"
  shows "\<exists>g. train_iter lib env cb num_updates g ts = Some res
           \<and> (case res of Inl e \<Rightarrow> True | Inr ts' \<Rightarrow> \<not> snd (snd ts') < num_updates)"
proof (rule train_loop.raw_induct[where P = "\<lambda>lib env cb num_updates ts res.
          \<exists>g. train_iter lib env cb num_updates g ts = Some res
           \<and> (case res of Inl e \<Rightarrow> True | Inr ts' \<Rightarrow> \<not> snd (snd ts') < num_updates)", OF _ assms],
    goal_cases)
  case (1 f lib env cb num_updates ts res)
  note IH = 1(1) and body = 1(2)
  show ?case
  proof (cases "snd (snd ts) < num_updates")
    case False
    with body have "res = Inr ts" by simp
    with False have "train_iter lib env cb num_updates 0 ts = Some res
        \<and> (case res of Inl e \<Rightarrow> True | Inr ts' \<Rightarrow> \<not> snd (snd ts') < num_updates)" by simp
    then show ?thesis by blast
  next
    case True
    from body True obtain r where r: "generation lib env cb ts = Some r"
      by (cases "generation lib env cb ts") simp_all
    show ?thesis
    proof (cases r)
      case (Inl err)
      with body True r have "res = Inl err" by simp
      with True r Inl have "train_iter lib env cb num_updates (Suc 0) ts = Some res
        \<and> (case res of Inl e \<Rightarrow> True | Inr ts' \<Rightarrow> \<not> snd (snd ts') < num_updates)" by simp
      then show ?thesis by blast
    next
      case (Inr ts1)
      with body True r have "f lib env cb num_updates ts1 = Some res" by simp
      from IH[OF this] obtain g where g: "train_iter lib env cb num_updates g ts1 = Some res"
        "(case res of Inl e \<Rightarrow> True | Inr ts' \<Rightarrow> \<not> snd (snd ts') < num_updates)" by blast
      with True r Inr have "train_iter lib env cb num_updates (Suc g) ts = Some res" by simp
      with g(2) show ?thesis by blast
    qed
  qed
qed

lemma train_iter_stop:
  "\<not> snd (snd ts) < num_updates \<Longrightarrow> train_iter lib env cb num_updates g ts = Some (Inr ts)"
  by (cases g) simp_all

lemma train_iter_last:
  "train_iter lib env cb num_updates g ts = Some (Inr ts') \<Longrightarrow> \<not> snd (snd ts') < num_updates \<Longrightarrow>
   snd (snd ts) < num_updates \<Longrightarrow>
   \<exists>g' ts1. train_iter lib env cb num_updates g' ts = Some (Inr ts1)
        \<and> snd (snd ts1) < num_updates \<and> generation lib env cb ts1 = Some (Inr ts')"
proof (induction g arbitrary: ts)
  case 0
  then show ?case by simp
next
  case (Suc g)
  from Suc.prems(1,3) obtain ts2 where
    g2: "generation lib env cb ts = Some (Inr ts2)"
    and rest: "train_iter lib env cb num_updates g ts2 = Some (Inr ts')"
    by (auto split: option.splits sum.splits)
  show ?case
  proof (cases "snd (snd ts2) < num_updates")
    case False
    with rest have "ts' = ts2" by (simp add: train_iter_stop)
    with g2 Suc.prems(3) have "train_iter lib env cb num_updates 0 ts = Some (Inr ts)
        \<and> snd (snd ts) < num_updates \<and> generation lib env cb ts = Some (Inr ts')" by simp
    then show ?thesis by blast
  next
    case True
    from Suc.IH[OF rest Suc.prems(2) True] obtain g' ts1 where
      a: "train_iter lib env cb num_updates g' ts2 = Some (Inr ts1)"
      "snd (snd ts1) < num_updates" "generation lib env cb ts1 = Some (Inr ts')" by blast
    from a(1) g2 Suc.prems(3) have "train_iter lib env cb num_updates (Suc g') ts = Some (Inr ts1)"
      by simp
    with a(2,3) show ?thesis by blast
  qed
qed

lemma train_iter_keeps:
  "train_iter lib env cb num_updates g ts = Some (Inr ts') \<Longrightarrow>
   n_population (fst ts') = n_population (fst ts)
   \<and> init_mu (fst ts') = init_mu (fst ts) \<and> init_sigma (fst ts') = init_sigma (fst ts)
   \<and> getParamSpace (policy (fst ts')) = getParamSpace (policy (fst ts))
   \<and> (\<forall>w. setParam (policy (fst ts')) w = setParam (policy (fst ts)) w)
   \<and> (\<exists>m. snd (snd ts') = snd (snd ts) + n_population (fst ts) * int m)"
proof (induction g arbitrary: ts)
  case 0
  then have "ts' = ts" by simp
  moreover have "snd (snd ts) = snd (snd ts) + n_population (fst ts) * int 0" by simp
  ultimately show ?case by blast
next
  case (Suc g)
  show ?case
  proof (cases "snd (snd ts) < num_updates")
    case False
    with Suc.prems have "ts' = ts" by simp
    moreover have "snd (snd ts) = snd (snd ts) + n_population (fst ts) * int 0" by simp
    ultimately show ?thesis by blast
  next
    case True
    with Suc.prems obtain ts2 where
      g2: "generation lib env cb ts = Some (Inr ts2)"
      and rest: "train_iter lib env cb num_updates g ts2 = Some (Inr ts')"
      by (auto split: option.splits sum.splits)
    note k = generation_keeps[OF g2]
    note ih = Suc.IH[OF rest]
    from k(8) obtain m1 where m1: "snd (snd ts2) = snd (snd ts) + n_population (fst ts) * int m1"
      by blast
    from ih obtain m2 where m2: "snd (snd ts') = snd (snd ts2) + n_population (fst ts2) * int m2"
      by blast
    have "snd (snd ts') = snd (snd ts) + n_population (fst ts) * int (m1 + m2)"
      using m1 m2 k(1) by (simp add: algebra_simps)
    then have c: "\<exists>m. snd (snd ts') = snd (snd ts) + n_population (fst ts) * int m" by blast
    have "\<forall>w. setParam (policy (fst ts')) w = setParam (policy (fst ts)) w"
      using ih k(6) by simp
    with ih k(1,2,3,5) c show ?thesis by simp
  qed
qed

text \<open>
  \<^verbatim>\<open>train\<close> leaves the hyperparameters as the constructor set them, so what the
  checkpoint theorem asks of a trainer holds of every trainer that \<^verbatim>\<open>train\<close> returns.
\<close>

lemma train_keeps_hyperparameters:
  assumes "train lib env cb num_updates t e = Some (Inr (t', e', c))"
  shows "n_population t' = n_population t \<and> init_mu t' = init_mu t
       \<and> init_sigma t' = init_sigma t
       \<and> getParamSpace (policy t') = getParamSpace (policy t)"
proof -
  from assms have "train_loop lib env cb num_updates (t, e, 0) = Some (Inr (t', e', c))"
    by (simp add: train_def)
  from train_iter_of_train_loop[OF this] obtain g where
    "train_iter lib env cb num_updates g (t, e, 0) = Some (Inr (t', e', c))" by auto
  from train_iter_keeps[OF this] show ?thesis by simp
qed

text \<open>
  With an empty population the rollout loop is skipped (\<^verbatim>\<open>done.all()\<close> is true of the
  empty array), the counter stays where it is, and \<^verbatim>\<open>train\<close> does not return when the
  budget is positive and neither the environment nor the strategy raises.
\<close>

lemma generation_empty_population:
  assumes "n_population (fst ts) = 0"
    and "\<forall>e. \<exists>r. env_reset env e = Inr r" and "\<forall>s. \<exists>r. es_ask lib s = Inr r"
    and "\<forall>s p f. \<exists>s'. es_tell lib s p f = Inr s'"
  shows "\<exists>ts'. generation lib env cb ts = Some (Inr ts') \<and> n_population (fst ts') = 0
            \<and> snd (snd ts') = snd (snd ts)"
proof -
  obtain t e c where ts: "ts = (t, e, c)" by (cases ts) auto
  from assms(2) obtain e1 obs where r: "env_reset env e = Inr (e1, obs)" by (metis surj_pair)
  from assms(3) obtain s1 population where a: "es_ask lib (es t) = Inr (s1, population)"
    by (metis surj_pair)
  let ?st0 = "\<lparr>l_policy = policy t, l_env = e1, l_obs = obs, l_r = [], l_done = [],
                l_step = c, l_actions = []\<rparr>"
  have start: "generation_start lib env ts = Inr (s1, population, ?st0)"
    using assms(1) r a by (simp add: generation_start_def ts)
  have ro: "rollout env cb 0 population ?st0 = Some (Inr ?st0)"
    by (subst rollout.simps) (simp add: np_all_def)
  from assms(4) obtain s2 where "es_tell lib s1 population (map uminus (l_r ?st0)) = Inr s2"
    by blast
  then have "generation lib env cb ts
      = Some (Inr (t\<lparr>policy := policy t, es := s2, best_model := es_xbest lib s2\<rparr>, e1, c))"
    using start ro assms(1) by (simp add: generation_def generation_end_def ts)
  then show ?thesis using assms(1) by (simp add: ts)
qed

lemma train_loop_empty_population:
  assumes "train_loop lib env cb num_updates ts = Some res"
  shows "\<not> (n_population (fst ts) = 0 \<and> snd (snd ts) < num_updates
             \<and> (\<forall>e. \<exists>r. env_reset env e = Inr r) \<and> (\<forall>s. \<exists>r. es_ask lib s = Inr r)
             \<and> (\<forall>s p f. \<exists>s'. es_tell lib s p f = Inr s'))"
proof (rule train_loop.raw_induct[where P = "\<lambda>lib env cb num_updates ts res.
          \<not> (n_population (fst ts) = 0 \<and> snd (snd ts) < num_updates
             \<and> (\<forall>e. \<exists>r. env_reset env e = Inr r) \<and> (\<forall>s. \<exists>r. es_ask lib s = Inr r)
             \<and> (\<forall>s p f. \<exists>s'. es_tell lib s p f = Inr s'))", OF _ assms],
    goal_cases)
  case (1 f lib env cb num_updates ts res)
  note IH = 1(1) and body = 1(2)
  show ?case
  proof
    assume c: "n_population (fst ts) = 0 \<and> snd (snd ts) < num_updates
             \<and> (\<forall>e. \<exists>r. env_reset env e = Inr r) \<and> (\<forall>s. \<exists>r. es_ask lib s = Inr r)
             \<and> (\<forall>s p f. \<exists>s'. es_tell lib s p f = Inr s')"
    then have "\<exists>ts'. generation lib env cb ts = Some (Inr ts') \<and> n_population (fst ts') = 0
            \<and> snd (snd ts') = snd (snd ts)"
      by (intro generation_empty_population) simp_all
    then obtain ts' where g: "generation lib env cb ts = Some (Inr ts')"
      and k: "n_population (fst ts') = 0" "snd (snd ts') = snd (snd ts)" by blast
    from body c g have "f lib env cb num_updates ts' = Some res" by simp
    from IH[OF this] have n: "\<not> (n_population (fst ts') = 0 \<and> snd (snd ts') < num_updates
             \<and> (\<forall>e. \<exists>r. env_reset env e = Inr r) \<and> (\<forall>s. \<exists>r. es_ask lib s = Inr r)
             \<and> (\<forall>s p f. \<exists>s'. es_tell lib s p f = Inr s'))" .
    from c k have "snd (snd ts') < num_updates" by simp
    with c k(1) n show False by blast
  qed
qed

lemma train_empty_population_diverges:
  assumes "n_population t = 0" and "0 < num_updates"
    and "\<forall>e. \<exists>r. env_reset env e = Inr r" and "\<forall>s. \<exists>r. es_ask lib s = Inr r"
    and "\<forall>s p f. \<exists>s'. es_tell lib s p f = Inr s'"
  shows "train lib env cb num_updates t e = None"
proof (cases "train lib env cb num_updates t e")
  case None
  then show ?thesis .
next
  case (Some res)
  then have "train_loop lib env cb num_updates (t, e, 0) = Some res" by (simp add: train_def)
  from train_loop_empty_population[OF this]
  have n: "\<not> (n_population (fst (t, e, 0 :: int)) = 0 \<and> snd (snd (t, e, 0 :: int)) < num_updates
             \<and> (\<forall>e. \<exists>r. env_reset env e = Inr r) \<and> (\<forall>s. \<exists>r. es_ask lib s = Inr r)
             \<and> (\<forall>s p f. \<exists>s'. es_tell lib s p f = Inr s'))" .
  have "n_population (fst (t, e, 0 :: int)) = 0" "snd (snd (t, e, 0 :: int)) < num_updates"
    using assms(1,2) by simp_all
  with n assms(3,4,5) show ?thesis by blast
qed

lemma toy_generation: "generation toy_lib toy_env None (toy_trainer, 0, 0) = Some (Inr (toy_trained, 2, 4))"
  using toy_start toy_rollout
  by (simp add: generation_def generation_end_def toy_trained_def toy_trainer_def toy_st2_def
      toy_lib_def toy_population_def np_argmax_def)

lemma toy_train: "train toy_lib toy_env None 1 toy_trainer 0 = Some (Inr (toy_trained, 2, 4))"
  unfolding train_def
  by (subst train_loop.simps, simp add: toy_generation, subst train_loop.simps, simp)

lemma toy_env_finishes: "env_finishes toy_env 2"
proof -
  have "episodes_end toy_env (Suc (Suc 0)) 0 [False, False]"
    by (simp add: toy_env_def np_bitwise_or_def np_all_def)
  then have "\<exists>h. episodes_end toy_env h 0 (replicate (nat 2) False)"
    by (intro exI[of _ "Suc (Suc 0)"]) (simp only: numeral_2_eq_2 nat_2 replicate.simps)
  moreover have "\<And>e e1 obs. env_reset toy_env e = Inr (e1, obs) \<Longrightarrow> e1 = 0"
    by (simp add: toy_env_def)
  ultimately show ?thesis unfolding env_finishes_def by blast
qed

text \<open>
  C2, as the code has it. With a population size of at least one and an environment that
  finishes, \<^verbatim>\<open>train\<close> returns (a result or an exception) for every step budget; every
  pass through the rollout loop adds exactly the population size to the counter; and when
  \<^verbatim>\<open>train\<close> returns normally the counter is at least the budget and a multiple of the
  population size. The budget is tested between generations only: the final counter is 0
  (no generation ran), or it is the counter at the end of a generation that began below
  the budget.
\<close>

theorem train_terminates:
  assumes "1 \<le> n_population t" and "env_finishes env (n_population t)"
  shows "(\<exists>res. train lib env cb num_updates t e = Some res)
       \<and> (\<forall>population st st'. rollout_step env cb (n_population t) population st = Inr st' \<longrightarrow>
              l_step st' = l_step st + n_population t)
       \<and> (\<forall>t' e' c. train lib env cb num_updates t e = Some (Inr (t', e', c)) \<longrightarrow>
              num_updates \<le> c \<and> (\<exists>m. c = n_population t * int m)
              \<and> ((c = 0 \<and> num_updates \<le> 0 \<and> t' = t \<and> e' = e)
                  \<or> (\<exists>ts1. snd (snd ts1) < num_updates \<and> n_population (fst ts1) = n_population t
                         \<and> generation lib env cb ts1 = Some (Inr (t', e', c)))))"
proof (intro conjI allI impI)
  show "\<exists>res. train lib env cb num_updates t e = Some res"
    unfolding train_def using assms by (intro train_loop_terminates) simp_all
next
  fix population st st'
  assume "rollout_step env cb (n_population t) population st = Inr st'"
  then show "l_step st' = l_step st + n_population t" by (rule rollout_step_spec(2))
next
  fix t' e' c
  assume tr: "train lib env cb num_updates t e = Some (Inr (t', e', c))"
  then have tl: "train_loop lib env cb num_updates (t, e, 0) = Some (Inr (t', e', c))"
    by (simp add: train_def)
  from train_iter_of_train_loop[OF tl] obtain g where
    g: "train_iter lib env cb num_updates g (t, e, 0) = Some (Inr (t', e', c))"
    and stop: "\<not> c < num_updates" by auto
  from stop show "num_updates \<le> c" by simp
  from train_iter_keeps[OF g] show "\<exists>m. c = n_population t * int m" by simp
  show "(c = 0 \<and> num_updates \<le> 0 \<and> t' = t \<and> e' = e)
      \<or> (\<exists>ts1. snd (snd ts1) < num_updates \<and> n_population (fst ts1) = n_population t
             \<and> generation lib env cb ts1 = Some (Inr (t', e', c)))"
  proof (cases "0 < num_updates")
    case False
    then have "train_iter lib env cb num_updates g (t, e, 0) = Some (Inr (t, e, 0))"
      by (intro train_iter_stop) simp
    with g False show ?thesis by simp
  next
    case True
    have s: "\<not> snd (snd (t', e', c)) < num_updates" using stop by simp
    have b: "snd (snd (t, e, 0 :: int)) < num_updates" using True by simp
    from train_iter_last[OF g s b] obtain g' ts1 where
      a: "train_iter lib env cb num_updates g' (t, e, 0) = Some (Inr ts1)"
      "snd (snd ts1) < num_updates" "generation lib env cb ts1 = Some (Inr (t', e', c))" by blast
    from train_iter_keeps[OF a(1)] have "n_population (fst ts1) = n_population t" by simp
    with a(2,3) show ?thesis by blast
  qed
qed

theorem train_terminates_witness:
  "1 \<le> n_population toy_trainer \<and> env_finishes toy_env (n_population toy_trainer)
   \<and> train toy_lib toy_env None 1 toy_trainer 0 = Some (Inr (toy_trained, 2, 4))
   \<and> (1 :: int) \<le> 4 \<and> (4 :: int) = n_population toy_trainer * int 2
   \<and> generation toy_lib toy_env None (toy_trainer, 0, 0) = Some (Inr (toy_trained, 2, 4))"
proof -
  have n: "n_population toy_trainer = 2" by (simp add: toy_trainer_def)
  have a: "1 \<le> n_population toy_trainer" using n by simp
  have b: "env_finishes toy_env (n_population toy_trainer)" using toy_env_finishes n by simp
  from train_terminates[OF a b, of toy_lib None 1 0, THEN conjunct2, THEN conjunct2] toy_train
  have "(1 :: int) \<le> 4" by blast
  with a b n toy_train toy_generation show ?thesis by simp
qed

text \<open>
  C2 as stated fails in its upper bound: with a population of two, a budget of one and
  episodes of one and two steps, the counter ends at 4, which is not below 1 + 2.
\<close>

theorem train_overshoots_budget:
  "env_finishes toy_env (n_population toy_trainer)
   \<and> train toy_lib toy_env None 1 toy_trainer 0 = Some (Inr (toy_trained, 2, 4))
   \<and> \<not> (4 < 1 + n_population toy_trainer)"
  using toy_env_finishes toy_train by (simp add: toy_trainer_def)

subsection \<open>The parameters \<^verbatim>\<open>CMAES.getAction\<close> evaluates\<close>

lemma generation_ignores_best_model:
  "generation lib env cb (t\<lparr>best_model := b\<rparr>, e, c) = generation lib env cb (t, e, c)"
  by (simp add: generation_def generation_start_def generation_end_def
      split: sum.splits prod.splits option.splits)

lemma train_ignores_best_model:
  "0 < num_updates \<Longrightarrow>
   train lib env cb num_updates (t\<lparr>best_model := b\<rparr>) e = train lib env cb num_updates t e"
proof -
  assume "0 < num_updates"
  then show ?thesis
    unfolding train_def
    using train_loop.simps[of lib env cb num_updates "(t\<lparr>best_model := b\<rparr>, e, 0)"]
      train_loop.simps[of lib env cb num_updates "(t, e, 0)"]
    by (simp add: generation_ignores_best_model)
qed

lemma generation_last_written:
  assumes gen: "generation lib env cb ts = Some (Inr ts')" and n: "1 \<le> n_population (fst ts)"
  shows "\<exists>s1 population st0 i st stf k.
           generation_start lib env ts = Inr (s1, population, st0)
         \<and> rollout_iter env cb (n_population (fst ts)) population i st0 = Inr st
         \<and> \<not> np_all (l_done st)
         \<and> rollout_step env cb (n_population (fst ts)) population st = Inr stf
         \<and> np_all (l_done stf)
         \<and> k < nat (n_population (fst ts)) \<and> \<not> l_done st ! k
         \<and> (\<forall>j. k < j \<and> j < nat (n_population (fst ts)) \<longrightarrow> l_done st ! j)
         \<and> setParam (policy (fst ts)) (population ! k) = Inr (policy (fst ts'))"
proof -
  let ?n = "n_population (fst ts)"
  from generation_spec[OF gen] obtain s1 population st0 stf where
    start: "generation_start lib env ts = Inr (s1, population, st0)"
    and ro: "rollout env cb ?n population st0 = Some (Inr stf)"
    and fin: "generation_end lib (fst ts) s1 population stf = Inr ts'" by blast
  from generation_end_spec[OF fin] have pol': "policy (fst ts') = l_policy stf" by auto
  note g = generation_start_lengths[OF start]
  from rollout_iter_of_rollout[OF ro] obtain i where
    i: "rollout_iter env cb ?n population i st0 = Inr stf" and d: "np_all (l_done stf)" by auto
  have nd0: "\<not> np_all (l_done st0)"
    using n g(7) by (cases "nat ?n") (simp_all add: np_all_def)
  from rollout_last_step[OF i d nd0] obtain j st where
    j: "rollout_iter env cb ?n population j st0 = Inr st" and nd: "\<not> np_all (l_done st)"
    and last: "rollout_step env cb ?n population st = Inr stf" by blast
  have inv0: "length (l_done st0) = length (l_r st0)" using g(1,2) by simp
  from rollout_iter_lengths[OF j inv0] g(1) have ld: "length (l_done st) = nat ?n" by simp
  from nd ld have "\<not> (\<forall>k<nat ?n. l_done st ! k)"
    by (simp add: np_all_def list_all_length)
  from actions_loop_last_not_done[OF rollout_step_spec(3)[OF last] this] obtain k where
    k: "k < nat ?n" "\<not> l_done st ! k" "\<forall>j. k < j \<and> j < nat ?n \<longrightarrow> l_done st ! j"
    "setParam (l_policy st) (population ! k) = Inr (l_policy stf)" by blast
  from rollout_iter_policy_cong[OF j] g(3) k(4) pol'
  have "setParam (policy (fst ts)) (population ! k) = Inr (policy (fst ts'))" by simp
  with start j nd last d k(1,2,3) show ?thesis by blast
qed

text \<open>
  C8. \<^verbatim>\<open>CMAES.getAction\<close> evaluates the policy object and does not read
  \<^verbatim>\<open>best_model\<close>; what \<^verbatim>\<open>train\<close> does is the same whatever \<^verbatim>\<open>best_model\<close> holds at
  the start. After a training of at least one generation, the policy of the trainer is the
  policy with the parameters that \<^verbatim>\<open>setParam\<close> wrote for candidate \<open>k\<close> of the last
  generation's population, where \<open>k\<close> is the last index that was not yet done at the
  beginning of the final step of the rollout.
\<close>

theorem getAction_uses_last_written_parameters:
  shows "CMAES_getAction (t\<lparr>best_model := b\<rparr>) obs = getAction (policy t) obs
       \<and> (0 < num_updates \<longrightarrow>
            train lib env cb num_updates (t\<lparr>best_model := b\<rparr>) e = train lib env cb num_updates t e)
       \<and> (\<forall>t' e' c'. train lib env cb num_updates t e = Some (Inr (t', e', c'))
              \<and> 0 < num_updates \<and> 1 \<le> n_population t \<longrightarrow>
            (\<exists>ts1 s1 population st0 i st stf k.
                generation lib env cb ts1 = Some (Inr (t', e', c'))
              \<and> generation_start lib env ts1 = Inr (s1, population, st0)
              \<and> rollout_iter env cb (n_population t) population i st0 = Inr st
              \<and> \<not> np_all (l_done st)
              \<and> rollout_step env cb (n_population t) population st = Inr stf
              \<and> np_all (l_done stf)
              \<and> k < nat (n_population t) \<and> \<not> l_done st ! k
              \<and> (\<forall>j. k < j \<and> j < nat (n_population t) \<longrightarrow> l_done st ! j)
              \<and> setParam (policy t) (population ! k) = Inr (policy t')))"
proof (intro conjI allI impI)
  show "CMAES_getAction (t\<lparr>best_model := b\<rparr>) obs = getAction (policy t) obs"
    by (simp add: CMAES_getAction_def)
next
  assume "0 < num_updates"
  then show "train lib env cb num_updates (t\<lparr>best_model := b\<rparr>) e = train lib env cb num_updates t e"
    by (rule train_ignores_best_model)
next
  fix t' e' c'
  assume a: "train lib env cb num_updates t e = Some (Inr (t', e', c'))
              \<and> 0 < num_updates \<and> 1 \<le> n_population t"
  then have tl: "train_loop lib env cb num_updates (t, e, 0) = Some (Inr (t', e', c'))"
    by (simp add: train_def)
  from train_iter_of_train_loop[OF tl] obtain g where
    g: "train_iter lib env cb num_updates g (t, e, 0) = Some (Inr (t', e', c'))"
    and stop: "\<not> c' < num_updates" by auto
  have s: "\<not> snd (snd (t', e', c')) < num_updates" using stop by simp
  have b0: "snd (snd (t, e, 0 :: int)) < num_updates" using a by simp
  from train_iter_last[OF g s b0] obtain g' ts1 where
    g1: "train_iter lib env cb num_updates g' (t, e, 0) = Some (Inr ts1)"
    and gen: "generation lib env cb ts1 = Some (Inr (t', e', c'))" by blast
  from train_iter_keeps[OF g1] have n1: "n_population (fst ts1) = n_population t"
    and cong: "\<forall>w. setParam (policy (fst ts1)) w = setParam (policy t) w" by simp_all
  from a n1 have "1 \<le> n_population (fst ts1)" by simp
  from generation_last_written[OF gen this] obtain s1 population st0 i st stf k where
    w: "generation_start lib env ts1 = Inr (s1, population, st0)"
       "rollout_iter env cb (n_population (fst ts1)) population i st0 = Inr st"
       "\<not> np_all (l_done st)"
       "rollout_step env cb (n_population (fst ts1)) population st = Inr stf"
       "np_all (l_done stf)"
       "k < nat (n_population (fst ts1))" "\<not> l_done st ! k"
       "\<forall>j. k < j \<and> j < nat (n_population (fst ts1)) \<longrightarrow> l_done st ! j"
       "setParam (policy (fst ts1)) (population ! k) = Inr (policy (fst (t', e', c')))"
    by blast
  from w(9) cong have "setParam (policy t) (population ! k) = Inr (policy t')" by simp
  with gen w(1-8) n1
  show "\<exists>ts1 s1 population st0 i st stf k.
                generation lib env cb ts1 = Some (Inr (t', e', c'))
              \<and> generation_start lib env ts1 = Inr (s1, population, st0)
              \<and> rollout_iter env cb (n_population t) population i st0 = Inr st
              \<and> \<not> np_all (l_done st)
              \<and> rollout_step env cb (n_population t) population st = Inr stf
              \<and> np_all (l_done stf)
              \<and> k < nat (n_population t) \<and> \<not> l_done st ! k
              \<and> (\<forall>j. k < j \<and> j < nat (n_population t) \<longrightarrow> l_done st ! j)
              \<and> setParam (policy t) (population ! k) = Inr (policy t')"
    by (simp only: n1) blast
qed

theorem getAction_uses_last_written_parameters_witness:
  "train toy_lib toy_env None 1 toy_trainer 0 = Some (Inr (toy_trained, 2, 4))
   \<and> train toy_lib toy_env None 1 (toy_trainer\<lparr>best_model := Some [7, 7]\<rparr>) 0
        = Some (Inr (toy_trained, 2, 4))
   \<and> setParam (policy toy_trainer) (toy_population ! 1) = Inr (policy toy_trained)
   \<and> best_model toy_trained = Some [0, 0]
   \<and> parameters (model (policy toy_trained)) = [[1], [1]]
   \<and> CMAES_getAction toy_trained 3 = Inr (Continuous [3, 3])
   \<and> CMAES_getAction (toy_trained\<lparr>best_model := Some [7, 7]\<rparr>) 3 = Inr (Continuous [3, 3])"
proof -
  note th = getAction_uses_last_written_parameters[where t = toy_trained and b = "Some [7, 7]"
      and obs = 3 and num_updates = 1 and lib = toy_lib and env = toy_env and cb = None and e = 0]
  note th2 = getAction_uses_last_written_parameters[where t = toy_trainer and b = "Some [7, 7]"
      and obs = 3 and num_updates = 1 and lib = toy_lib and env = toy_env and cb = None and e = 0]
  have ga: "getAction (policy toy_trained) 3 = Inr (Continuous [3, 3])"
    by (simp add: toy_trained_def toy_defs getAction_def)
  from th[THEN conjunct1] ga
  have a: "CMAES_getAction (toy_trained\<lparr>best_model := Some [7, 7]\<rparr>) 3 = Inr (Continuous [3, 3])"
    by simp
  from th2[THEN conjunct2, THEN conjunct1] toy_train
  have b: "train toy_lib toy_env None 1 (toy_trainer\<lparr>best_model := Some [7, 7]\<rparr>) 0
        = Some (Inr (toy_trained, 2, 4))" by simp
  have c: "setParam (policy toy_trainer) (toy_population ! 1) = Inr (policy toy_trained)"
    by (simp add: toy_trained_def toy_defs setParam_def)
  have d: "CMAES_getAction toy_trained 3 = Inr (Continuous [3, 3])"
    using ga by (simp add: CMAES_getAction_def)
  show ?thesis using toy_train a b c d by (simp add: toy_trained_def toy_defs)
qed

end
